theory Spec2Isabelle
  imports Complex_Main "HOL-Library.Sublist"
begin

section \<open>Python values used by \<^verbatim>\<open>persian_writer/analysis.py\<close>\<close>

text \<open>
  A Python \<^verbatim>\<open>str\<close> is a sequence of Unicode code points, so a text is a list of
  code points (natural numbers); \<open>of_ascii\<close> writes an ASCII literal.
\<close>

type_synonym ustr = "nat list"

definition of_ascii :: "string \<Rightarrow> ustr" where
  "of_ascii s = map of_char s"

text \<open>
  \<^verbatim>\<open>str.isspace\<close> on one code point. \<^verbatim>\<open>str.strip()\<close>, \<^verbatim>\<open>str.split()\<close> and the
  regular expression class \<^verbatim>\<open>\s\<close> of a \<^verbatim>\<open>str\<close> pattern all use this one predicate of
  the interpreter (its table of whitespace code points).
\<close>

definition py_isspace :: "nat \<Rightarrow> bool" where
  "py_isspace c \<longleftrightarrow>
     (9 \<le> c \<and> c \<le> 13) \<or> (28 \<le> c \<and> c \<le> 32) \<or> c = 133 \<or> c = 160 \<or> c = 5760 \<or>
     (8192 \<le> c \<and> c \<le> 8202) \<or> c = 8232 \<or> c = 8233 \<or> c = 8239 \<or> c = 8287 \<or> c = 12288"

text \<open>
  The class \<^verbatim>\<open>\w\<close> of a \<^verbatim>\<open>str\<close> pattern: the underscore and every alphanumeric code
  point. On ASCII these are the digits and the letters; beyond ASCII the answer is in the
  interpreter's Unicode database, which is taken as the parameter \<open>U\<close>.
\<close>

definition py_isword :: "(nat \<Rightarrow> bool) \<Rightarrow> nat \<Rightarrow> bool" where
  "py_isword U c \<longleftrightarrow>
     (if c < 128
      then (48 \<le> c \<and> c \<le> 57) \<or> (65 \<le> c \<and> c \<le> 90) \<or> c = 95 \<or> (97 \<le> c \<and> c \<le> 122)
      else U c)"

text \<open>\<^verbatim>\<open>s.strip()\<close>: leading and trailing whitespace removed.\<close>

definition strip :: "ustr \<Rightarrow> ustr" where
  "strip s = rev (dropWhile py_isspace (rev (dropWhile py_isspace s)))"

text \<open>
  \<^verbatim>\<open>s.split(sep)\<close> for a non-empty separator: the text is cut at the leftmost occurrences
  of \<open>sep\<close>, which do not overlap; \<open>cur\<close> is the segment being read.
\<close>

function str_split :: "ustr \<Rightarrow> ustr \<Rightarrow> ustr \<Rightarrow> ustr list" where
  "str_split sep cur [] = [cur]"
| "str_split sep cur (c # cs) =
     (if sep \<noteq> [] \<and> prefix sep (c # cs)
      then cur # str_split sep [] (drop (length sep) (c # cs))
      else str_split sep (cur @ [c]) cs)"
  by pat_completeness auto
termination
  by (relation "measure (\<lambda>(sep, cur, s). length s)") (auto simp: neq_Nil_conv)

text \<open>
  \<^verbatim>\<open>pattern.split(s)\<close> for a pattern that is one character class without groups: the
  text is cut at every character of the class, and the character is dropped.
\<close>

fun re_split :: "(nat \<Rightarrow> bool) \<Rightarrow> ustr \<Rightarrow> ustr \<Rightarrow> ustr list" where
  "re_split P cur [] = [cur]"
| "re_split P cur (c # cs) =
     (if P c then cur # re_split P [] cs else re_split P (cur @ [c]) cs)"

text \<open>
  The matches of the pattern \<^verbatim>\<open>C{n,}\<close> (a class repeated greedily, at least \<open>n \<ge> 1\<close>
  times), scanned from the left as \<^verbatim>\<open>findall\<close> and \<^verbatim>\<open>finditer\<close> do: at each position the
  longest run of the class is tried; when it is too short the scan moves one character on,
  otherwise the run is a match and the scan resumes behind it.
\<close>

function re_runs :: "(nat \<Rightarrow> bool) \<Rightarrow> nat \<Rightarrow> ustr \<Rightarrow> ustr list" where
  "re_runs P n [] = []"
| "re_runs P n (c # cs) =
     (if P c \<and> n \<le> Suc (length (takeWhile P cs))
      then (c # takeWhile P cs) # re_runs P n (dropWhile P cs)
      else re_runs P n cs)"
  by pat_completeness auto
termination
  by (relation "measure (\<lambda>(P, n, s). length s)") (auto simp: length_dropWhile_le less_Suc_eq_le)

text \<open>
  \<^verbatim>\<open>s.split()\<close> without a separator: the words between runs of whitespace; no empty
  word is produced.
\<close>

function py_split :: "ustr \<Rightarrow> ustr list" where
  "py_split [] = []"
| "py_split (c # cs) =
     (if py_isspace c then py_split cs
      else (c # takeWhile (\<lambda>x. \<not> py_isspace x) cs) # py_split (dropWhile (\<lambda>x. \<not> py_isspace x) cs))"
  by pat_completeness auto
termination
  by (relation "measure length") (auto simp: length_dropWhile_le less_Suc_eq_le)

text \<open>\<^verbatim>\<open>pat in s\<close> on strings: \<open>pat\<close> occurs in \<open>s\<close> as a contiguous substring.\<close>

fun contains :: "ustr \<Rightarrow> ustr \<Rightarrow> bool" where
  "contains pat [] = (pat = [])"
| "contains pat (c # cs) = (prefix pat (c # cs) \<or> contains pat cs)"

subsection \<open>Numbers\<close>

text \<open>
  A Python \<^verbatim>\<open>float\<close> is a binary64 number; it is represented by the rational number
  it denotes. \<open>rne\<close> rounds a rational to the nearest integer, ties to the even one.
  \<open>fl\<close> rounds a rational to the nearest number with a 53-bit significand, ties to even:
  the result of every correctly rounded float operation. The exponent range is not
  modelled: every float below is a quotient of two list lengths or a number of hundredths
  near one, far from overflow and underflow.
\<close>

definition rne :: "rat \<Rightarrow> int" where
  "rne x =
     (let f = \<lfloor>x\<rfloor>; d = x - of_int f
      in if d < 1 / 2 then f else if 1 / 2 < d then f + 1 else if even f then f else f + 1)"

definition pow2 :: "int \<Rightarrow> rat" where
  "pow2 e = (if 0 \<le> e then 2 ^ nat e else 1 / 2 ^ nat (- e))"

fun bit_length :: "nat \<Rightarrow> nat" where
  "bit_length n = (if n = 0 then 0 else Suc (bit_length (n div 2)))"

declare bit_length.simps [simp del]

definition ilog2 :: "rat \<Rightarrow> int" where
  "ilog2 x =
     (let (p, q) = quotient_of x;
          d = int (bit_length (nat p)) - int (bit_length (nat q))
      in if pow2 d \<le> x then d else d - 1)"

definition fl :: "rat \<Rightarrow> rat" where
  "fl x =
     (if x \<le> 0 then 0
      else let e = ilog2 x - 52 in of_int (rne (x / pow2 e)) * pow2 e)"

datatype py_error = ZeroDivisionError

datatype pynum = PyInt int | PyFloat rat

text \<open>
  \<^verbatim>\<open>a / b\<close> on two lengths: true division of integers, correctly rounded, which raises
  on a zero divisor.
\<close>

definition py_truediv :: "nat \<Rightarrow> nat \<Rightarrow> py_error + pynum" where
  "py_truediv a b =
     (if b = 0 then Inl ZeroDivisionError else Inr (PyFloat (fl (of_nat a / of_nat b))))"

text \<open>
  \<^verbatim>\<open>round(x, 2)\<close>: an integer is returned as it is; for a float the decimal with two
  places nearest to the float's exact value is chosen (ties to the even digit), and the
  result is the float nearest to that decimal.
\<close>

fun py_round2 :: "pynum \<Rightarrow> pynum" where
  "py_round2 (PyInt i) = PyInt i"
| "py_round2 (PyFloat x) = PyFloat (fl (of_int (rne (x * 100)) / 100))"

section \<open>The analyzer\<close>

record TextMetrics =
  words :: nat
  sentences :: nat
  paragraphs :: nat
  average_sentence_length :: pynum
  average_paragraph_length :: pynum
  long_sentences :: "ustr list"
  repeated_spaces :: "ustr list"
  typography_alerts :: "ustr list"

text \<open>
  The class of \<^verbatim>\<open>SENTENCE_ENDINGS\<close>, in the order the pattern lists it: the full stop,
  the Arabic question mark U+061F, the exclamation mark, the fullwidth exclamation mark
  U+FF01, and the exclamation mark again.
\<close>

definition SENTENCE_ENDINGS :: "nat list" where
  "SENTENCE_ENDINGS = [46, 1567, 33, 65281, 33]"

definition sentence_ending :: "nat \<Rightarrow> bool" where
  "sentence_ending c \<longleftrightarrow> c \<in> set SENTENCE_ENDINGS"

text \<open>The four alert messages, in the order of the checks.\<close>

definition ALERT_COMMA :: ustr where
  "ALERT_COMMA = [1601, 1575, 1589, 1604, 1607, 32, 1602, 1576, 1604, 32, 1575, 1586, 32,
     1608, 1740, 1585, 1711, 1608, 1604, 32, 1585, 1575, 32, 1581, 1584, 1601, 32, 1705,
     1606, 1740, 1583, 46]"

definition ALERT_SEMICOLON :: ustr where
  "ALERT_SEMICOLON = [1601, 1575, 1589, 1604, 1607, 32, 1602, 1576, 1604, 32, 1575, 1586,
     32, 1606, 1602, 1591, 1607, 32, 1608, 1740, 1585, 1711, 1608, 1604, 32, 1606, 1576,
     1575, 1740, 1583, 32, 1576, 1575, 1588, 1583, 46]"

definition ALERT_EXCLAMATION :: ustr where
  "ALERT_EXCLAMATION = [1575, 1586, 32, 1583, 1608, 32, 1593, 1604, 1575, 1605, 1578, 32,
     1578, 1593, 1580, 1576, 32, 1662, 1588, 1578, 32, 1587, 1585, 32, 1607, 1605, 32,
     1662, 1585, 1607, 1740, 1586, 32, 1705, 1606, 1740, 1583, 46]"

definition ALERT_QUESTION :: ustr where
  "ALERT_QUESTION = [1575, 1586, 32, 1670, 1606, 1583, 32, 1593, 1604, 1575, 1605, 1578,
     32, 1587, 1608, 1575, 1604, 32, 1662, 1588, 1578, 32, 1587, 1585, 32, 1607, 1605, 32,
     1662, 1585, 1607, 1740, 1586, 32, 1705, 1606, 1740, 1583, 46]"

text \<open>The comprehensions of \<^verbatim>\<open>analyze_text\<close>, one definition each.\<close>

definition paragraph_list :: "ustr \<Rightarrow> ustr list" where
  "paragraph_list text = [strip p. p \<leftarrow> str_split [10, 10] [] text, strip p \<noteq> []]"

definition sentence_list :: "ustr \<Rightarrow> ustr list" where
  "sentence_list text = [strip s. s \<leftarrow> re_split sentence_ending [] text, strip s \<noteq> []]"

definition word_list :: "(nat \<Rightarrow> bool) \<Rightarrow> ustr \<Rightarrow> ustr list" where
  "word_list U text = re_runs (py_isword U) 1 text"

text \<open>
  The alerts: the list starts empty and each check that holds appends its message.
\<close>

definition alert_list :: "ustr \<Rightarrow> ustr list" where
  "alert_list text =
     (let a0 = [];
          a1 = (if contains (of_ascii '' ,'') text then a0 @ [ALERT_COMMA] else a0);
          a2 = (if contains (of_ascii '' ;'') text then a1 @ [ALERT_SEMICOLON] else a1);
          a3 = (if contains (of_ascii ''! !'') text then a2 @ [ALERT_EXCLAMATION] else a2);
          a4 = (if contains (of_ascii ''? ?'') text then a3 @ [ALERT_QUESTION] else a3)
      in a4)"

text \<open>
  An average: the guarded division of the source, \<^verbatim>\<open>len(ws) / len(xs) if xs else 0\<close>.
\<close>

definition average :: "ustr list \<Rightarrow> ustr list \<Rightarrow> py_error + pynum" where
  "average ws xs = (if xs \<noteq> [] then py_truediv (length ws) (length xs) else Inr (PyInt 0))"

definition analyze_text :: "(nat \<Rightarrow> bool) \<Rightarrow> ustr \<Rightarrow> py_error + TextMetrics" where
  "analyze_text U text =
     (let paragraphs = paragraph_list text;
          sentences = sentence_list text;
          words = word_list U text
      in case average words sentences of
           Inl e \<Rightarrow> Inl e
         | Inr avg_sentence_length \<Rightarrow>
        (case average words paragraphs of
           Inl e \<Rightarrow> Inl e
         | Inr avg_paragraph_length \<Rightarrow>
             Inr \<lparr> words = length words,
                   sentences = length sentences,
                   paragraphs = length paragraphs,
                   average_sentence_length = py_round2 avg_sentence_length,
                   average_paragraph_length = py_round2 avg_paragraph_length,
                   long_sentences = [s \<leftarrow> sentences. 30 < length (py_split s)],
                   repeated_spaces = re_runs py_isspace 2 text,
                   typography_alerts = alert_list text \<rparr>))"

section \<open>The report\<close>

text \<open>
  \<^verbatim>\<open>str\<close> of an integer, as an f-string renders it. The text of a float (its shortest
  decimal that reads back as the same float) belongs to the interpreter and is the
  parameter \<open>R\<close> of the report.
\<close>

fun str_nat :: "nat \<Rightarrow> ustr" where
  "str_nat n = (if n < 10 then [48 + n] else str_nat (n div 10) @ [48 + n mod 10])"

declare str_nat.simps [simp del]

definition str_int :: "int \<Rightarrow> ustr" where
  "str_int i = (if i < 0 then 45 # str_nat (nat (- i)) else str_nat (nat i))"

fun str_num :: "(rat \<Rightarrow> ustr) \<Rightarrow> pynum \<Rightarrow> ustr" where
  "str_num R (PyInt i) = str_int i"
| "str_num R (PyFloat x) = R x"

text \<open>The fixed texts of \<^verbatim>\<open>format_metrics\<close>, as code points.\<close>

definition TITLE_LINE :: ustr where
  "TITLE_LINE = [35, 35, 32, 1588, 1575, 1582, 1589, 8204, 1607, 1575, 1740, 32, 1605, 1578,
     1606, 10]"

definition WORDS_LABEL :: ustr where
  "WORDS_LABEL = [45, 32, 1578, 1593, 1583, 1575, 1583, 32, 1608, 1575, 1688, 1607, 8204,
     1607, 1575, 58, 32]"

definition SENTENCES_LABEL :: ustr where
  "SENTENCES_LABEL = [45, 32, 1578, 1593, 1583, 1575, 1583, 32, 1580, 1605, 1604, 1607, 8204,
     1607, 1575, 58, 32]"

definition PARAGRAPHS_LABEL :: ustr where
  "PARAGRAPHS_LABEL = [45, 32, 1578, 1593, 1583, 1575, 1583, 32, 1662, 1575, 1585, 1575, 1711,
     1585, 1575, 1601, 8204, 1607, 1575, 58, 32]"

definition AVG_SENTENCE_LABEL :: ustr where
  "AVG_SENTENCE_LABEL = [45, 32, 1605, 1740, 1575, 1606, 1711, 1740, 1606, 32, 1591, 1608,
     1604, 32, 1580, 1605, 1604, 1607, 58, 32]"

definition AVG_PARAGRAPH_LABEL :: ustr where
  "AVG_PARAGRAPH_LABEL = [45, 32, 1605, 1740, 1575, 1606, 1711, 1740, 1606, 32, 1591, 1608,
     1604, 32, 1662, 1575, 1585, 1575, 1711, 1585, 1575, 1601, 58, 32]"

definition WORD_UNIT :: ustr where
  "WORD_UNIT = [32, 1608, 1575, 1688, 1607, 10]"

definition LONG_HEADER :: ustr where
  "LONG_HEADER = [1580, 1605, 1604, 1607, 8204, 1607, 1575, 1740, 32, 1576, 1604, 1606, 1583,
     32, 40, 1576, 1740, 1588, 32, 1575, 1586, 32, 1779, 1776, 32, 1608, 1575, 1688, 1607,
     41, 58, 10]"

definition REPEATED_WARNING :: ustr where
  "REPEATED_WARNING = [1607, 1588, 1583, 1575, 1585, 58, 32, 1601, 1575, 1589, 1604, 1607,
     8204, 1607, 1575, 1740, 32, 1578, 1705, 1585, 1575, 1585, 1740, 32, 1662, 1740, 1583,
     1575, 32, 1588, 1583, 46, 10]"

definition ALERTS_HEADER :: ustr where
  "ALERTS_HEADER = [1607, 1588, 1583, 1575, 1585, 1607, 1575, 1740, 32, 1608, 1740, 1585,
     1575, 1740, 1588, 1740, 58, 10]"

text \<open>The line \<^verbatim>\<open>f"- {x}\n"\<close> of a list entry.\<close>

definition bullet :: "ustr \<Rightarrow> ustr" where
  "bullet x = [45, 32] @ x @ [10]"

text \<open>
  \<^verbatim>\<open>format_metrics\<close> builds the list \<^verbatim>\<open>lines\<close> by appending and joins it.
  \<open>head_lines\<close> is the list it starts from, \<open>format_lines\<close> the list when the function
  returns; each \<^verbatim>\<open>for\<close> loop is a fold that appends one line per element.
\<close>

definition append_bullets :: "ustr list \<Rightarrow> ustr list \<Rightarrow> ustr list" where
  "append_bullets lines xs = foldl (\<lambda>ls x. ls @ [bullet x]) lines xs"

definition head_lines :: "(rat \<Rightarrow> ustr) \<Rightarrow> TextMetrics \<Rightarrow> ustr list" where
  "head_lines R metrics =
     [TITLE_LINE,
      WORDS_LABEL @ str_nat (words metrics) @ [10],
      SENTENCES_LABEL @ str_nat (sentences metrics) @ [10],
      PARAGRAPHS_LABEL @ str_nat (paragraphs metrics) @ [10],
      AVG_SENTENCE_LABEL @ str_num R (average_sentence_length metrics) @ WORD_UNIT,
      AVG_PARAGRAPH_LABEL @ str_num R (average_paragraph_length metrics) @ WORD_UNIT,
      [10]]"

definition format_lines :: "(rat \<Rightarrow> ustr) \<Rightarrow> TextMetrics \<Rightarrow> ustr list" where
  "format_lines R metrics =
     (let lines0 = head_lines R metrics;
          lines1 =
            (if long_sentences metrics \<noteq> []
             then append_bullets (lines0 @ [LONG_HEADER]) (long_sentences metrics) @ [[10]]
             else lines0);
          lines2 =
            (if repeated_spaces metrics \<noteq> [] then lines1 @ [REPEATED_WARNING] else lines1);
          lines3 =
            (if typography_alerts metrics \<noteq> []
             then append_bullets (lines2 @ [ALERTS_HEADER]) (typography_alerts metrics)
             else lines2)
      in lines3)"

definition format_metrics :: "(rat \<Rightarrow> ustr) \<Rightarrow> TextMetrics \<Rightarrow> ustr" where
  "format_metrics R metrics = concat (format_lines R metrics)"

section \<open>Notions of the specification\<close>

text \<open>
  A maximal run of a class \<open>P\<close> in a text starts at a position that is in the class and
  whose left neighbour, if there is one, is not; it extends to the right as far as the
  class holds. \<open>maximal_runs\<close> lists the runs in the order of their positions.
\<close>

definition run_start :: "(nat \<Rightarrow> bool) \<Rightarrow> ustr \<Rightarrow> nat \<Rightarrow> bool" where
  "run_start P s i \<longleftrightarrow> P (s ! i) \<and> (i = 0 \<or> \<not> P (s ! (i - 1)))"

definition maximal_runs :: "(nat \<Rightarrow> bool) \<Rightarrow> ustr \<Rightarrow> ustr list" where
  "maximal_runs P s = [takeWhile P (drop i s). i \<leftarrow> [0..<length s], run_start P s i]"

text \<open>
  The same list for a text whose left neighbour is known: \<open>b\<close> says whether the
  character before the text is in the class.
\<close>

definition runs_from :: "(nat \<Rightarrow> bool) \<Rightarrow> bool \<Rightarrow> ustr \<Rightarrow> ustr list" where
  "runs_from P b s =
     [takeWhile P (drop i s). i \<leftarrow> [0..<length s],
        P (s ! i) \<and> (if i = 0 then \<not> b else \<not> P (s ! (i - 1)))]"

text \<open>
  The text lines of a string: its segments between newline characters. A line of the
  report is a string that ends in a newline and has no other.
\<close>

definition text_lines :: "ustr \<Rightarrow> ustr list" where
  "text_lines s = re_split (\<lambda>c. c = 10) [] s"

definition is_line :: "ustr \<Rightarrow> bool" where
  "is_line l \<longleftrightarrow> l \<noteq> [] \<and> last l = 10 \<and> 10 \<notin> set (butlast l)"

text \<open>Metrics with one long sentence, no repeated spaces and one alert.\<close>

definition example_metrics :: TextMetrics where
  "example_metrics =
     \<lparr> words = 3, sentences = 1, paragraphs = 1,
       average_sentence_length = PyFloat 3, average_paragraph_length = PyFloat 3,
       long_sentences = [of_ascii ''a b c''], repeated_spaces = [],
       typography_alerts = [ALERT_COMMA] \<rparr>"

text \<open>
  Rounding a rational to two decimal places, by the two tie rules: to the even digit, and
  away from zero (the numbers here are not negative). A quotient is a decimal tie when it
  lies halfway between two decimals with two places.
\<close>

definition round2_half_even :: "rat \<Rightarrow> rat" where
  "round2_half_even q = of_int (rne (q * 100)) / 100"

definition round2_half_away :: "rat \<Rightarrow> rat" where
  "round2_half_away q = of_int \<lfloor>q * 100 + 1 / 2\<rfloor> / 100"

definition decimal_tie :: "rat \<Rightarrow> bool" where
  "decimal_tie q \<longleftrightarrow> frac (q * 100) = 1 / 2"

text \<open>
  A text of thirty lines \<^verbatim>\<open>a\<close> and a last line that is the text of the alerts header:
  one sentence of 32 tokens.
\<close>

definition wrapped_text :: ustr where
  "wrapped_text =
     [97, 10, 97, 10, 97, 10, 97, 10, 97, 10, 97, 10, 97, 10, 97, 10, 97, 10, 97, 10,
      97, 10, 97, 10, 97, 10, 97, 10, 97, 10, 97, 10, 97, 10, 97, 10, 97, 10, 97, 10,
      97, 10, 97, 10, 97, 10, 97, 10, 97, 10, 97, 10, 97, 10, 97, 10, 97, 10, 97, 10] @
     butlast ALERTS_HEADER"

text \<open>The checks of the typography heuristics: the substring looked for and its alert.\<close>

definition typography_checks :: "(ustr \<times> ustr) list" where
  "typography_checks =
     [(of_ascii '' ,'', ALERT_COMMA), (of_ascii '' ;'', ALERT_SEMICOLON),
      (of_ascii ''! !'', ALERT_EXCLAMATION), (of_ascii ''? ?'', ALERT_QUESTION)]"

section \<open>Facts about the model\<close>

lemmas text_defs = of_ascii_def strip_def py_isspace_def py_isword_def sentence_ending_def
  SENTENCE_ENDINGS_def

lemma average_Inr:
  "average ws xs =
     Inr (if xs = [] then PyInt 0 else PyFloat (fl (of_nat (length ws) / of_nat (length xs))))"
  by (simp add: average_def py_truediv_def)

lemma analyze_text_Inr:
  "analyze_text U text =
     Inr \<lparr> words = length (word_list U text),
           sentences = length (sentence_list text),
           paragraphs = length (paragraph_list text),
           average_sentence_length =
             py_round2 (if sentence_list text = [] then PyInt 0
                else PyFloat (fl (of_nat (length (word_list U text)) / of_nat (length (sentence_list text))))),
           average_paragraph_length =
             py_round2 (if paragraph_list text = [] then PyInt 0
                else PyFloat (fl (of_nat (length (word_list U text)) / of_nat (length (paragraph_list text))))),
           long_sentences = [s \<leftarrow> sentence_list text. 30 < length (py_split s)],
           repeated_spaces = re_runs py_isspace 2 text,
           typography_alerts = alert_list text \<rparr>"
  by (simp add: analyze_text_def average_Inr Let_def)

lemma re_split_append:
  "P q \<Longrightarrow> re_split P cur (a @ q # b) = re_split P cur a @ re_split P [] b"
  by (induction a arbitrary: cur) simp_all

lemma sentence_list_join:
  "sentence_ending q \<Longrightarrow> sentence_list (a @ q # b) = sentence_list a @ sentence_list b"
  by (simp add: sentence_list_def re_split_append)

lemma sentence_list_ex1: "sentence_list (of_ascii ''A? B? C?'') = [of_ascii ''A? B? C?'']"
  by (simp add: sentence_list_def text_defs)

lemma sentence_list_ex2:
  "sentence_list (of_ascii ''One. Two! Three?'') = [of_ascii ''One'', of_ascii ''Two'', of_ascii ''Three?'']"
  by (simp add: sentence_list_def text_defs)

lemma empty_lists:
  "sentence_list [] = []" "paragraph_list [] = []" "word_list U [] = []" "alert_list [] = []"
  by (simp_all add: sentence_list_def paragraph_list_def word_list_def alert_list_def text_defs)

subsection \<open>The scans find the maximal runs\<close>

lemma maximal_runs_runs_from: "maximal_runs P s = runs_from P False s"
proof -
  have "(\<lambda>i. if run_start P s i then [takeWhile P (drop i s)] else []) =
        (\<lambda>i. if P (s ! i) \<and> (if i = 0 then \<not> False else \<not> P (s ! (i - 1)))
              then [takeWhile P (drop i s)] else [])"
    by (rule ext) (simp add: run_start_def)
  then show ?thesis
    by (simp add: maximal_runs_def runs_from_def)
qed

lemma runs_from_Nil: "runs_from P b [] = []"
  by (simp add: runs_from_def)

lemma runs_from_Cons:
  "runs_from P b (c # cs) =
     (if P c \<and> \<not> b then [takeWhile P (c # cs)] else []) @ runs_from P (P c) cs"
proof -
  define F where "F = (\<lambda>i. if P ((c # cs) ! i) \<and> (if i = 0 then \<not> b else \<not> P ((c # cs) ! (i - 1)))
                        then [takeWhile P (drop i (c # cs))] else [])"
  define G where "G = (\<lambda>i. if P (cs ! i) \<and> (if i = 0 then \<not> P c else \<not> P (cs ! (i - 1)))
                        then [takeWhile P (drop i cs)] else [])"
  have upt: "[0..<length (c # cs)] = 0 # map Suc [0..<length cs]"
    by (simp add: upt_conv_Cons map_Suc_upt del: upt_Suc)
  have tail: "map (F \<circ> Suc) [0..<length cs] = map G [0..<length cs]"
    by (rule map_cong) (simp_all add: F_def G_def nth_Cons')
  have "runs_from P b (c # cs) = concat (map F [0..<length (c # cs)])"
    by (simp add: runs_from_def F_def)
  also have "\<dots> = F 0 @ concat (map (F \<circ> Suc) [0..<length cs])"
    by (simp only: upt list.map concat.simps map_map)
  also have "\<dots> = F 0 @ concat (map G [0..<length cs])"
    by (simp only: tail)
  also have "concat (map G [0..<length cs]) = runs_from P (P c) cs"
    by (simp add: runs_from_def G_def)
  also have "F 0 = (if P c \<and> \<not> b then [takeWhile P (c # cs)] else [])"
    by (simp add: F_def)
  finally show ?thesis .
qed

lemma runs_from_True: "runs_from P True s = runs_from P False (dropWhile P s)"
  by (induction s) (simp_all add: runs_from_Nil runs_from_Cons)


lemma re_runs_runs_from:
  "(b \<Longrightarrow> length (takeWhile P s) < n) \<Longrightarrow>
   re_runs P n s = [r \<leftarrow> runs_from P b s. n \<le> length r]"
proof (induction P n s arbitrary: b rule: re_runs.induct)
  case (1 P n)
  show ?case by (simp add: runs_from_Nil)
next
  case (2 P n c cs)
  show ?case
  proof (cases "P c \<and> n \<le> Suc (length (takeWhile P cs))")
    case True
    then have nb: "\<not> b" using "2.prems" by auto
    have "re_runs P n (dropWhile P cs) = [r \<leftarrow> runs_from P False (dropWhile P cs). n \<le> length r]"
      using "2.IH"(1) [OF True, of False] by simp
    then show ?thesis using True nb
      by (simp add: runs_from_Cons runs_from_True)
  next
    case False
    show ?thesis
    proof (cases "P c")
      case True
      with False have short: "length (takeWhile P cs) < n" by simp
      have "re_runs P n cs = [r \<leftarrow> runs_from P True cs. n \<le> length r]"
        using "2.IH"(2) [OF False, of True] short by simp
      then show ?thesis using True False
        by (simp add: runs_from_Cons)
    next
      case nP: False
      have "re_runs P n cs = [r \<leftarrow> runs_from P False cs. n \<le> length r]"
        using "2.IH"(2) [OF False, of False] by simp
      then show ?thesis using nP
        by (simp add: runs_from_Cons)
    qed
  qed
qed

lemma re_runs_maximal: "re_runs P n s = [r \<leftarrow> maximal_runs P s. n \<le> length r]"
  using re_runs_runs_from [of False P s n] by (simp add: maximal_runs_runs_from)




section \<open>The claims\<close>

text \<open>
  C2. The text \<^verbatim>\<open>One. Two! Three?\<close> has three sentences: the full stop and the exclamation
  mark cut it, and the last segment \<^verbatim>\<open>Three?\<close> is not empty.
\<close>

theorem sentence_split_example:
  "\<exists>m. analyze_text U (of_ascii ''One. Two! Three?'') = Inr m \<and> sentences m = 3"
  by (simp add: analyze_text_Inr sentence_list_ex2)

text \<open>
  C4. On the empty text the analyzer returns all counts and both averages zero and all
  three lists empty, and on every text it returns metrics: the division is guarded, so
  no run raises.
\<close>

theorem analyze_empty_and_total:
  "analyze_text U [] =
     Inr \<lparr> words = 0, sentences = 0, paragraphs = 0,
           average_sentence_length = PyInt 0, average_paragraph_length = PyInt 0,
           long_sentences = [], repeated_spaces = [], typography_alerts = [] \<rparr>
   \<and> (\<exists>m. analyze_text U text = Inr m)"
  by (simp add: analyze_text_Inr empty_lists)

subsection \<open>Long sentences\<close>







subsection \<open>Repeated spaces\<close>

lemma repeated_ex: "re_runs py_isspace 2 (of_ascii ''a  b   c'') = [of_ascii ''  '', of_ascii ''   '']"
  by (simp add: text_defs)

text \<open>
  C6. \<^verbatim>\<open>repeated_spaces\<close> lists, in the order of their positions in the untrimmed text,
  the maximal runs of whitespace that have two characters or more, each as it stands in
  the text; for \<^verbatim>\<open>a  b   c\<close> these are the run of two and the run of three spaces.
\<close>

theorem repeated_spaces_maximal_runs:
  "(\<exists>m. analyze_text U text = Inr m \<and>
      repeated_spaces m = [r \<leftarrow> maximal_runs py_isspace text. 2 \<le> length r]) \<and>
   (\<exists>m. analyze_text U (of_ascii ''a  b   c'') = Inr m \<and>
      repeated_spaces m = [of_ascii ''  '', of_ascii ''   ''])"
  by (simp add: analyze_text_Inr re_runs_maximal [symmetric] repeated_ex)

subsection \<open>Typography alerts\<close>

lemma contains_sublist: "contains pat s \<longleftrightarrow> sublist pat s"
  by (induction s) (simp_all add: sublist_Cons_right)

lemma alert_list_eq:
  "alert_list text =
     (if sublist (of_ascii '' ,'') text then [ALERT_COMMA] else []) @
     (if sublist (of_ascii '' ;'') text then [ALERT_SEMICOLON] else []) @
     (if sublist (of_ascii ''! !'') text then [ALERT_EXCLAMATION] else []) @
     (if sublist (of_ascii ''? ?'') text then [ALERT_QUESTION] else [])"
  by (simp add: alert_list_def contains_sublist)

lemma alert_list_checks:
  "alert_list text = [msg. (pat, msg) \<leftarrow> typography_checks, sublist pat text]"
  by (simp add: alert_list_eq typography_checks_def)

lemma alerts_distinct:
  "distinct [ALERT_COMMA, ALERT_SEMICOLON, ALERT_EXCLAMATION, ALERT_QUESTION]"
  by (simp add: ALERT_COMMA_def ALERT_SEMICOLON_def ALERT_EXCLAMATION_def ALERT_QUESTION_def)

lemma choice_subseq:
  "subseq ((if a then [w] else []) @ (if b then [x] else []) @ (if c then [y] else []) @
           (if d then [z] else [])) [w, x, y, z]"
  by (cases a; cases b; cases c; cases d) simp_all

lemma choice_distinct:
  "distinct [w, x, y, z] \<Longrightarrow>
   distinct ((if a then [w] else []) @ (if b then [x] else []) @ (if c then [y] else []) @
             (if d then [z] else []))"
  by (cases a; cases b; cases c; cases d) simp_all

lemma choice_count:
  "distinct [w, x, y, z] \<Longrightarrow>
   count_list ((if a then [w] else []) @ (if b then [x] else []) @ (if c then [y] else []) @
               (if d then [z] else [])) w = (if a then 1 else 0) \<and>
   count_list ((if a then [w] else []) @ (if b then [x] else []) @ (if c then [y] else []) @
               (if d then [z] else [])) x = (if b then 1 else 0) \<and>
   count_list ((if a then [w] else []) @ (if b then [x] else []) @ (if c then [y] else []) @
               (if d then [z] else [])) y = (if c then 1 else 0) \<and>
   count_list ((if a then [w] else []) @ (if b then [x] else []) @ (if c then [y] else []) @
               (if d then [z] else [])) z = (if d then 1 else 0)"
  by (cases a; cases b; cases c; cases d) auto

lemma alert_list_ex1: "alert_list (of_ascii ''word , next'') = [ALERT_COMMA]"
  by (simp add: alert_list_def of_ascii_def)

lemma alert_list_ex2: "alert_list (of_ascii ''a , b , c , d'') = [ALERT_COMMA]"
  by (simp add: alert_list_def of_ascii_def)

text \<open>
  C7. The alerts are the messages of the checks whose substring occurs in the raw text,
  in the order of the checks; each message is there once when its substring occurs, however
  often it does, and not at all otherwise. For \<^verbatim>\<open>word , next\<close>, and for a text with four
  spaces before commas, the alerts are the comma message alone.
\<close>

theorem typography_alerts_once_per_check:
  "(\<exists>m. analyze_text U text = Inr m \<and>
     typography_alerts m = [msg. (pat, msg) \<leftarrow> typography_checks, sublist pat text] \<and>
     count_list (typography_alerts m) ALERT_COMMA =
       (if sublist (of_ascii '' ,'') text then 1 else 0) \<and>
     count_list (typography_alerts m) ALERT_SEMICOLON =
       (if sublist (of_ascii '' ;'') text then 1 else 0) \<and>
     count_list (typography_alerts m) ALERT_EXCLAMATION =
       (if sublist (of_ascii ''! !'') text then 1 else 0) \<and>
     count_list (typography_alerts m) ALERT_QUESTION =
       (if sublist (of_ascii ''? ?'') text then 1 else 0)) \<and>
   (\<exists>m. analyze_text U (of_ascii ''word , next'') = Inr m \<and>
     typography_alerts m = [ALERT_COMMA]) \<and>
   (\<exists>m. analyze_text U (of_ascii ''a , b , c , d'') = Inr m \<and>
     typography_alerts m = [ALERT_COMMA])"
proof (intro conjI)
  show "\<exists>m. analyze_text U text = Inr m \<and>
     typography_alerts m = [msg. (pat, msg) \<leftarrow> typography_checks, sublist pat text] \<and>
     count_list (typography_alerts m) ALERT_COMMA =
       (if sublist (of_ascii '' ,'') text then 1 else 0) \<and>
     count_list (typography_alerts m) ALERT_SEMICOLON =
       (if sublist (of_ascii '' ;'') text then 1 else 0) \<and>
     count_list (typography_alerts m) ALERT_EXCLAMATION =
       (if sublist (of_ascii ''! !'') text then 1 else 0) \<and>
     count_list (typography_alerts m) ALERT_QUESTION =
       (if sublist (of_ascii ''? ?'') text then 1 else 0)"
    using choice_count [OF alerts_distinct]
    by (simp add: analyze_text_Inr alert_list_checks [symmetric] alert_list_eq)
  show "\<exists>m. analyze_text U (of_ascii ''word , next'') = Inr m \<and>
     typography_alerts m = [ALERT_COMMA]"
    by (simp add: analyze_text_Inr alert_list_ex1)
  show "\<exists>m. analyze_text U (of_ascii ''a , b , c , d'') = Inr m \<and>
     typography_alerts m = [ALERT_COMMA]"
    by (simp add: analyze_text_Inr alert_list_ex2)
qed

text \<open>
  C10. The alerts are a subsequence of the list of the four messages and no message is
  repeated, so there are at most four of them and each is one of the four.
\<close>

theorem typography_alerts_subseq:
  "\<exists>m. analyze_text U text = Inr m \<and>
     subseq (typography_alerts m) [ALERT_COMMA, ALERT_SEMICOLON, ALERT_EXCLAMATION, ALERT_QUESTION] \<and>
     distinct (typography_alerts m) \<and>
     length (typography_alerts m) \<le> 4"
proof -
  have s: "subseq (alert_list text) [ALERT_COMMA, ALERT_SEMICOLON, ALERT_EXCLAMATION, ALERT_QUESTION]"
    unfolding alert_list_eq by (rule choice_subseq)
  have d: "distinct (alert_list text)"
    unfolding alert_list_eq by (rule choice_distinct [OF alerts_distinct])
  have "length (alert_list text) \<le> length [ALERT_COMMA, ALERT_SEMICOLON, ALERT_EXCLAMATION, ALERT_QUESTION]"
    using s by (rule list_emb_length)
  then have l: "length (alert_list text) \<le> 4" by simp
  show ?thesis using s d l by (simp add: analyze_text_Inr)
qed

subsection \<open>Sentence boundaries\<close>

lemma sentence_ending_iff:
  "sentence_ending q \<longleftrightarrow> q = 46 \<or> q = 1567 \<or> q = 33 \<or> q = 65281"
  by (auto simp: sentence_ending_def SENTENCE_ENDINGS_def)

lemma length_comprehension: "length [f s. s \<leftarrow> xs, Q s] = length (filter Q xs)"
  by (induction xs) simp_all

lemma sentence_count_split:
  "length (sentence_list text) = length [s \<leftarrow> re_split sentence_ending [] text. strip s \<noteq> []]"
  unfolding sentence_list_def by (rule length_comprehension)

text \<open>
  C1, as stated, fails: the ASCII question mark (code point 63) is not in the class of
  \<^verbatim>\<open>SENTENCE_ENDINGS\<close>. The text \<^verbatim>\<open>A? B? C?\<close> is one sentence, and joining \<^verbatim>\<open>A\<close> and
  \<^verbatim>\<open> B\<close> by a question mark gives one sentence where the two parts have one each.
\<close>

theorem ascii_question_mark_no_boundary:
  "\<not> sentence_ending 63 \<and>
   (\<forall>U. \<exists>m. analyze_text U (of_ascii ''A? B? C?'') = Inr m \<and> sentences m = 1) \<and>
   (\<forall>U. \<exists>m ma mb. analyze_text U (of_ascii ''A'' @ 63 # of_ascii '' B'') = Inr m \<and>
      analyze_text U (of_ascii ''A'') = Inr ma \<and> analyze_text U (of_ascii '' B'') = Inr mb \<and>
      sentences m = 1 \<and> sentences ma + sentences mb = 2)"
proof (intro conjI allI)
  show "\<not> sentence_ending 63"
    by (simp add: sentence_ending_iff)
  show "\<exists>m. analyze_text U (of_ascii ''A? B? C?'') = Inr m \<and> sentences m = 1" for U
    by (simp add: analyze_text_Inr sentence_list_ex1)
  have 1: "sentence_list (of_ascii ''A'' @ 63 # of_ascii '' B'') = [of_ascii ''A? B'']"
    by (simp add: sentence_list_def text_defs)
  have 2: "sentence_list (of_ascii ''A'') = [of_ascii ''A'']"
    by (simp add: sentence_list_def text_defs)
  have 3: "sentence_list (of_ascii '' B'') = [of_ascii ''B'']"
    by (simp add: sentence_list_def text_defs)
  show "\<exists>m ma mb. analyze_text U (of_ascii ''A'' @ 63 # of_ascii '' B'') = Inr m \<and>
      analyze_text U (of_ascii ''A'') = Inr ma \<and> analyze_text U (of_ascii '' B'') = Inr mb \<and>
      sentences m = 1 \<and> sentences ma + sentences mb = 2" for U
    by (simp add: analyze_text_Inr 1 2 3)
qed

text \<open>
  C1, amended. The sentence terminators are the full stop, the Arabic question mark
  U+061F, the exclamation mark and the fullwidth exclamation mark U+FF01. The text is cut
  at each of them, and the sentences are the segments that are not empty after trimming.
  Two texts joined by a terminator have a sentence boundary there: the sentence count of
  the joined text is the sum of the two counts.
\<close>

theorem sentence_boundary_at_ending:
  "(sentence_ending q \<longleftrightarrow> q = 46 \<or> q = 1567 \<or> q = 33 \<or> q = 65281) \<and>
   (\<exists>m. analyze_text U text = Inr m \<and>
      sentences m = length [s \<leftarrow> re_split sentence_ending [] text. strip s \<noteq> []]) \<and>
   (sentence_ending q \<longrightarrow>
     (\<exists>m ma mb. analyze_text U (a @ q # b) = Inr m \<and>
        analyze_text U a = Inr ma \<and> analyze_text U b = Inr mb \<and>
        sentences m = sentences ma + sentences mb))"
  by (simp add: sentence_ending_iff [symmetric] analyze_text_Inr sentence_list_join
      sentence_count_split [symmetric])

theorem sentence_boundary_at_ending_witness:
  "sentence_ending 1567 \<and>
   (\<exists>m ma mb. analyze_text (\<lambda>c. False) ([65, 1567, 32, 66] @ 1567 # [32, 67, 1567]) = Inr m \<and>
      analyze_text (\<lambda>c. False) [65, 1567, 32, 66] = Inr ma \<and>
      analyze_text (\<lambda>c. False) [32, 67, 1567] = Inr mb \<and>
      sentences m = sentences ma + sentences mb \<and> sentences m = 3)"
proof -
  have e: "sentence_ending 1567"
    by (simp add: sentence_ending_iff)
  have s: "sentence_list [65, 1567, 32, 66, 1567, 32, 67, 1567] = [[65], [66], [67]]"
    by (simp add: sentence_list_def text_defs)
  from sentence_boundary_at_ending [of 1567 "\<lambda>c. False" "[]" "[65, 1567, 32, 66]" "[32, 67, 1567]"] e
  show ?thesis
    by (simp add: analyze_text_Inr s)
qed

subsection \<open>Averages\<close>

lemma rne_near: "\<bar>of_int (rne y) - y\<bar> \<le> 1 / 2"
proof -
  have "of_int \<lfloor>y\<rfloor> \<le> y" "y < of_int \<lfloor>y\<rfloor> + 1"
    by linarith+
  then show ?thesis
    by (auto simp: rne_def Let_def)
qed

text \<open>
  \<open>fl\<close> is the rounding to 53 significant bits: the scaled argument lies between
  \<open>2 ^ 52\<close> and \<open>2 ^ 53\<close>, and the result is within the relative error \<open>2 ^ -53\<close>.
\<close>

lemma pow2_powi: "pow2 e = 2 powi e"
  by (simp add: pow2_def power_int_def field_simps)

lemma pow2_pos: "0 < pow2 e"
  by (simp add: pow2_powi)

lemma pow2_add: "pow2 (a + b) = pow2 a * pow2 b"
  by (simp add: pow2_powi power_int_add)

lemma pow2_diff: "pow2 (a - b) = pow2 a / pow2 b"
  by (simp add: pow2_powi power_int_diff)

lemma pow2_nat: "pow2 (int n) = 2 ^ n"
  by (simp add: pow2_powi)

lemma bit_length_bounds:
  "0 < n \<Longrightarrow> 2 ^ (bit_length n - 1) \<le> n \<and> n < 2 ^ bit_length n"
proof (induction n rule: bit_length.induct)
  case (1 n)
  show ?case
  proof (cases "n div 2 = 0")
    case True
    with "1.prems" have "n = 1" by (simp add: div_eq_0_iff) 
    then show ?thesis by (simp add: bit_length.simps)
  next
    case False
    then have pos: "0 < n div 2" by simp
    from "1.IH" [OF _ pos] "1.prems"
    have lo: "2 ^ (bit_length (n div 2) - 1) \<le> n div 2" and hi: "n div 2 < 2 ^ bit_length (n div 2)"
      by auto
    have b: "bit_length n = Suc (bit_length (n div 2))"
      using "1.prems" by (simp add: bit_length.simps [of n])
    have bpos: "0 < bit_length (n div 2)"
      using pos by (simp add: bit_length.simps [of "n div 2"])
    then have e: "2 ^ bit_length (n div 2) = 2 * (2::nat) ^ (bit_length (n div 2) - 1)"
      by (cases "bit_length (n div 2)") simp_all
    have "2 ^ bit_length (n div 2) \<le> 2 * (n div 2)"
      using lo e by simp
    also have "\<dots> \<le> n" by simp
    finally have 1: "2 ^ (bit_length n - 1) \<le> n" by (simp add: b)
    have "n < 2 * (n div 2) + 2" by presburger
    also have "\<dots> \<le> 2 * 2 ^ bit_length (n div 2)" using hi by simp
    finally have 2: "n < 2 ^ bit_length n" by (simp add: b)
    from 1 2 show ?thesis ..
  qed
qed

lemma ilog2_bounds:
  assumes "0 < x"
  shows "pow2 (ilog2 x) \<le> x" and "x < pow2 (ilog2 x + 1)"
proof -
  obtain p q where pq: "quotient_of x = (p, q)" by (cases "quotient_of x")
  have q: "0 < q" using pq by (rule quotient_of_denom_pos)
  have x: "x = of_int p / of_int q" using pq by (rule quotient_of_div)
  have p: "0 < p" using assms q x by (simp add: zero_less_divide_iff)
  define bp where "bp = bit_length (nat p)"
  define bq where "bq = bit_length (nat q)"
  have bpb: "2 ^ (bp - 1) \<le> nat p" "nat p < 2 ^ bp"
    using bit_length_bounds [of "nat p"] p by (simp_all add: bp_def)
  have bqb: "2 ^ (bq - 1) \<le> nat q" "nat q < 2 ^ bq"
    using bit_length_bounds [of "nat q"] q by (simp_all add: bq_def)
  have bp1: "0 < bp" using p by (simp add: bp_def bit_length.simps [of "nat p"])
  have bq1: "0 < bq" using q by (simp add: bq_def bit_length.simps [of "nat q"])
  have plo: "pow2 (int bp - 1) \<le> of_int p"
  proof -
    have "pow2 (int bp - 1) = pow2 (int (bp - 1))" using bp1 by (simp add: Suc_leI)
    also have "\<dots> = of_nat (2 ^ (bp - 1))" by (simp add: pow2_nat)
    also have "\<dots> \<le> of_nat (nat p)" using bpb(1) by (simp only: of_nat_le_iff)
    also have "\<dots> = of_int p" using p by simp
    finally show ?thesis .
  qed
  have phi: "of_int p < pow2 (int bp)"
  proof -
    have "(of_int p :: rat) = of_nat (nat p)" using p by simp
    also have "\<dots> < of_nat (2 ^ bp)" using bpb(2) by (simp only: of_nat_less_iff)
    also have "\<dots> = pow2 (int bp)" by (simp add: pow2_nat)
    finally show ?thesis .
  qed
  have qlo: "pow2 (int bq - 1) \<le> of_int q"
  proof -
    have "pow2 (int bq - 1) = pow2 (int (bq - 1))" using bq1 by (simp add: Suc_leI)
    also have "\<dots> = of_nat (2 ^ (bq - 1))" by (simp add: pow2_nat)
    also have "\<dots> \<le> of_nat (nat q)" using bqb(1) by (simp only: of_nat_le_iff)
    also have "\<dots> = of_int q" using q by simp
    finally show ?thesis .
  qed
  have qhi: "of_int q < pow2 (int bq)"
  proof -
    have "(of_int q :: rat) = of_nat (nat q)" using q by simp
    also have "\<dots> < of_nat (2 ^ bq)" using bqb(2) by (simp only: of_nat_less_iff)
    also have "\<dots> = pow2 (int bq)" by (simp add: pow2_nat)
    finally show ?thesis .
  qed
  define d where "d = int bp - int bq"
  have qpos: "(0::rat) < of_int q" using q by simp
  have ppos: "(0::rat) < of_int p" using p by simp
  have low: "pow2 (d - 1) \<le> x"
  proof -
    have "pow2 (d - 1) = pow2 (int bp - 1) / pow2 (int bq)"
      by (simp add: d_def pow2_diff [symmetric] algebra_simps)
    also have "\<dots> \<le> of_int p / pow2 (int bq)"
      using plo pow2_pos [of "int bq"] by (simp add: divide_right_mono)
    also have "\<dots> \<le> of_int p / of_int q"
      using qhi qpos ppos by (simp add: frac_le)
    finally show ?thesis by (simp add: x)
  qed
  have high: "x < pow2 (d + 1)"
  proof -
    have "x = of_int p / of_int q" by (rule x)
    also have "\<dots> < pow2 (int bp) / of_int q"
      using phi qpos by (simp add: divide_strict_right_mono)
    also have "\<dots> \<le> pow2 (int bp) / pow2 (int bq - 1)"
      using qlo pow2_pos [of "int bq - 1"] pow2_pos [of "int bp"] by (simp add: frac_le)
    also have "\<dots> = pow2 (d + 1)"
      by (simp add: d_def pow2_diff [symmetric] algebra_simps)
    finally show ?thesis .
  qed
  have il: "ilog2 x = (if pow2 d \<le> x then d else d - 1)"
    by (simp add: ilog2_def pq bp_def bq_def d_def)
  show "pow2 (ilog2 x) \<le> x"
    using low by (simp add: il)
  show "x < pow2 (ilog2 x + 1)"
    using high by (auto simp: il not_le)
qed

lemma fl_error:
  assumes "0 \<le> x"
  shows "\<bar>fl x - x\<bar> \<le> x / 2 ^ 53"
proof (cases "x = 0")
  case True
  then show ?thesis by (simp add: fl_def)
next
  case False
  with assms have pos: "0 < x" by simp
  define e where "e = ilog2 x - 52"
  have f: "fl x = of_int (rne (x / pow2 e)) * pow2 e"
    using pos by (simp add: fl_def e_def Let_def)
  have "(of_int (rne (x / pow2 e)) - x / pow2 e) * pow2 e = fl x - x"
    using pow2_pos [of e] by (simp add: f left_diff_distrib)
  then have "\<bar>fl x - x\<bar> = \<bar>(of_int (rne (x / pow2 e)) - x / pow2 e) * pow2 e\<bar>"
    by simp
  also have "\<dots> = \<bar>of_int (rne (x / pow2 e)) - x / pow2 e\<bar> * pow2 e"
    using pow2_pos [of e] by (simp only: abs_mult abs_of_pos)
  also have "\<dots> \<le> 1 / 2 * pow2 e"
    using rne_near [of "x / pow2 e"] pow2_pos [of e] by (simp add: mult_right_mono)
  also have "\<dots> = pow2 (ilog2 x) / 2 ^ 53"
  proof -
    have "pow2 e = pow2 (ilog2 x) / pow2 52" by (simp add: e_def pow2_diff)
    also have "pow2 52 = 2 ^ 52" using pow2_nat [of 52] by simp
    finally show ?thesis by simp
  qed
  also have "\<dots> \<le> x / 2 ^ 53"
    using ilog2_bounds(1) [OF pos] by (simp add: divide_right_mono)
  finally show ?thesis .
qed

lemma fl_significand:
  assumes "0 < x"
  shows "2 ^ 52 \<le> x / pow2 (ilog2 x - 52)" and "x / pow2 (ilog2 x - 52) < 2 ^ 53"
proof -
  have e: "pow2 (ilog2 x - 52) = pow2 (ilog2 x) / 2 ^ 52"
    using pow2_nat [of 52] by (simp add: pow2_diff)
  have p: "0 < pow2 (ilog2 x)" by (rule pow2_pos)
  have u: "pow2 (ilog2 x + 1) = 2 * pow2 (ilog2 x)"
    using pow2_nat [of 1] by (simp add: pow2_add)
  show "2 ^ 52 \<le> x / pow2 (ilog2 x - 52)"
    using ilog2_bounds(1) [OF assms] p by (simp add: e field_simps)
  have hi: "x < 2 * pow2 (ilog2 x)"
    using ilog2_bounds(2) [OF assms] by (simp only: u)
  show "x / pow2 (ilog2 x - 52) < 2 ^ 53"
    using hi p by (simp add: e field_simps)
qed


lemma round2_quotient:
  assumes "0 \<le> q"
  shows "\<exists>k. py_round2 (PyFloat (fl q)) = PyFloat (fl (of_int k / 100)) \<and>
             \<bar>of_int k / 100 - q\<bar> \<le> 1 / 200 + q / 2 ^ 53"
proof -
  define k where "k = rne (fl q * 100)"
  have "\<bar>of_int k - fl q * 100\<bar> \<le> 1 / 2"
    unfolding k_def by (rule rne_near)
  then have 1: "\<bar>of_int k / 100 - fl q\<bar> \<le> 1 / 200"
    by (simp add: abs_le_iff field_simps)
  have 2: "\<bar>fl q - q\<bar> \<le> q / 2 ^ 53"
    using assms by (rule fl_error)
  have "\<bar>of_int k / 100 - q\<bar> \<le> \<bar>of_int k / 100 - fl q\<bar> + \<bar>fl q - q\<bar>"
    by simp
  with 1 2 have "\<bar>of_int k / 100 - q\<bar> \<le> 1 / 200 + q / 2 ^ 53"
    by linarith
  then show ?thesis
    by (auto simp: k_def)
qed


text \<open>
  Below \<open>2 ^ 45\<close> words the error of the float division is too small to move a quotient
  across a tie: the decimal chosen is a nearest one to the exact quotient, and it is the
  rounded exact quotient when that is not a tie.
\<close>

lemma rne_unique:
  fixes y :: rat
  assumes "\<bar>of_int k - y\<bar> < 1 / 2"
  shows "rne y = k"
proof -
  from assms have lo: "of_int k - 1 / 2 < y" and hi: "y < of_int k + 1 / 2"
    by linarith+
  show ?thesis
  proof (cases "of_int k \<le> y")
    case True
    have f: "\<lfloor>y\<rfloor> = k"
      using True hi by (intro floor_unique) linarith+
    have "y - of_int k < 1 / 2" using hi by linarith
    with f show ?thesis by (simp add: rne_def Let_def)
  next
    case False
    have k1: "rat_of_int (k - 1) = of_int k - 1" by simp
    have "rat_of_int (k - 1) \<le> y" unfolding k1 using lo by linarith
    moreover have "y < rat_of_int (k - 1) + 1" unfolding k1 using False by linarith
    ultimately have f: "\<lfloor>y\<rfloor> = k - 1" by (rule floor_unique)
    have "1 / 2 < y - of_int (k - 1)" unfolding k1 using lo by linarith
    with f show ?thesis by (simp add: rne_def Let_def)
  qed
qed

lemma half_away_unique:
  fixes y :: rat
  assumes "\<bar>of_int k - y\<bar> < 1 / 2"
  shows "\<lfloor>y + 1 / 2\<rfloor> = k"
proof -
  from assms have lo: "of_int k - 1 / 2 < y" and hi: "y < of_int k + 1 / 2"
    by linarith+
  show ?thesis
    using lo hi by (intro floor_unique) linarith+
qed

lemma tie_at_half:
  fixes y :: rat
  assumes "\<bar>of_int k - y\<bar> = 1 / 2"
  shows "frac y = 1 / 2"
proof (cases "of_int k \<le> y")
  case True
  with assms have y: "y = of_int k + 1 / 2" by linarith
  have "\<lfloor>y\<rfloor> = k" unfolding y by (intro floor_unique) simp_all
  then show ?thesis by (simp add: frac_def y)
next
  case False
  with assms have y: "y = of_int (k - 1) + 1 / 2" by simp
  have "\<lfloor>y\<rfloor> = k - 1" unfolding y by (intro floor_unique) simp_all
  then show ?thesis by (simp add: frac_def) (simp add: y)
qed

lemma round_close:
  fixes w s :: nat
  assumes s: "0 < s" and w: "w < 2 ^ 45"
  defines "q \<equiv> rat_of_nat w / rat_of_nat s"
  defines "k \<equiv> rne (fl q * 100)"
  shows "\<bar>rat_of_int k - q * 100\<bar> \<le> 1 / 2"
proof -
  have sp: "(0::rat) < of_nat s" using s by simp
  have q0: "0 \<le> q" by (simp add: q_def)
  have a: "\<bar>rat_of_int k - fl q * 100\<bar> \<le> 1 / 2"
    unfolding k_def by (rule rne_near)
  have b: "\<bar>fl q - q\<bar> \<le> q / 2 ^ 53"
    using q0 by (rule fl_error)
  have w1: "200 * w < 9007199254740992" using w by simp
  have "rat_of_nat (200 * w) < rat_of_nat 9007199254740992"
    using w1 by (simp only: of_nat_less_iff)
  then have w': "200 * rat_of_nat w < 9007199254740992" by simp
  have p53: "(2::rat) ^ 53 = 9007199254740992" by simp
  have "q * 100 / 2 ^ 53 = (200 * rat_of_nat w) / (9007199254740992 * (2 * of_nat s))"
    unfolding p53 q_def by simp
  also have "\<dots> < 9007199254740992 / (9007199254740992 * (2 * of_nat s))"
    using w' sp by (intro divide_strict_right_mono) simp_all
  also have "\<dots> = 1 / (2 * of_nat s)"
    by simp
  finally have c: "q * 100 / 2 ^ 53 < 1 / (2 * of_nat s)" .
  have "fl q * 100 - q * 100 = (fl q - q) * 100"
    by (simp add: algebra_simps)
  then have "\<bar>fl q * 100 - q * 100\<bar> = \<bar>fl q - q\<bar> * 100"
    by (simp only: abs_mult)
  also have "\<dots> \<le> q / 2 ^ 53 * 100" using b by simp
  finally have d: "\<bar>fl q * 100 - q * 100\<bar> < 1 / (2 * of_nat s)" using c by simp
  have e: "\<bar>rat_of_int k - q * 100\<bar> < 1 / 2 + 1 / (2 * of_nat s)"
    using a d by linarith
  define n where "n = k * int s - 100 * int w"
  have kn: "rat_of_int k - q * 100 = of_int n / of_nat s"
    using sp by (simp add: n_def q_def field_simps)
  have "\<bar>rat_of_int n\<bar> / of_nat s < 1 / 2 + 1 / (2 * of_nat s)"
    using e sp by (simp add: kn)
  then have "\<bar>rat_of_int n\<bar> < (1 / 2 + 1 / (2 * of_nat s)) * of_nat s"
    using sp by (simp add: pos_divide_less_eq)
  also have "\<dots> = (of_nat s + 1) / 2"
    using sp by (simp add: field_simps)
  finally have "rat_of_int (2 * \<bar>n\<bar>) < rat_of_int (int s + 1)" by simp
  then have "2 * \<bar>n\<bar> < int s + 1" by (simp only: of_int_less_iff)
  then have "2 * \<bar>n\<bar> \<le> int s" by simp
  then have "rat_of_int (2 * \<bar>n\<bar>) \<le> rat_of_int (int s)" by (simp only: of_int_le_iff)
  then have "\<bar>rat_of_int n\<bar> \<le> of_nat s / 2" by simp
  then have "\<bar>rat_of_int n\<bar> / of_nat s \<le> 1 / 2"
    using sp by (simp add: pos_divide_le_eq)
  then show ?thesis using sp by (simp add: kn)
qed

lemma round_exact:
  fixes w s :: nat
  assumes s: "0 < s" and w: "w < 2 ^ 45"
    and nt: "\<not> decimal_tie (rat_of_nat w / rat_of_nat s)"
  shows "rne (fl (rat_of_nat w / rat_of_nat s) * 100) = rne (rat_of_nat w / rat_of_nat s * 100)"
    and "rne (fl (rat_of_nat w / rat_of_nat s) * 100) = \<lfloor>rat_of_nat w / rat_of_nat s * 100 + 1 / 2\<rfloor>"
proof -
  define q where "q = rat_of_nat w / rat_of_nat s"
  define k where "k = rne (fl q * 100)"
  have le: "\<bar>rat_of_int k - q * 100\<bar> \<le> 1 / 2"
    unfolding k_def q_def using s w by (rule round_close)
  have "\<bar>rat_of_int k - q * 100\<bar> \<noteq> 1 / 2"
    using nt tie_at_half [of k "q * 100"] by (auto simp: decimal_tie_def q_def)
  with le have lt: "\<bar>rat_of_int k - q * 100\<bar> < 1 / 2" by simp
  show "rne (fl (rat_of_nat w / rat_of_nat s) * 100) = rne (rat_of_nat w / rat_of_nat s * 100)"
    using rne_unique [OF lt] by (simp add: k_def q_def)
  show "rne (fl (rat_of_nat w / rat_of_nat s) * 100) = \<lfloor>rat_of_nat w / rat_of_nat s * 100 + 1 / 2\<rfloor>"
    using half_away_unique [OF lt] by (simp add: k_def q_def)
qed

lemma fl_10_3: "fl (10 / 3) = 7505999378950827 / 2251799813685248"
  by code_simp

lemma rne_10_3: "rne (7505999378950827 / 2251799813685248 * 100) = 333"
  by code_simp

lemma fl_333: "fl (333 / 100) = 1874623344892969 / 562949953421312"
  by code_simp

lemma round2_10_3: "py_round2 (PyFloat (fl (10 / 3))) = PyFloat (fl (333 / 100))"
  by (simp only: py_round2.simps fl_10_3 rne_10_3 of_int_numeral)

lemma round2_3_40: "py_round2 (PyFloat (fl (3 / 40))) = PyFloat (fl (7 / 100))"
  by code_simp

lemma tie_3_40:
  "round2_half_even (3 / 40) = 8 / 100" "round2_half_away (3 / 40) = 8 / 100"
  "fl (7 / 100) \<noteq> fl (8 / 100)" "fl (7 / 100) \<noteq> 8 / 100" "decimal_tie (3 / 40)"
  unfolding round2_half_even_def round2_half_away_def decimal_tie_def frac_def
  by code_simp+

lemma tie_ex_words:
  "length (word_list U (of_ascii ''a a a.-.-.-.-.-.-.-.-.-.-.-.-.-.-.-.-.-.-.-.-.-.-.-.-.-.-.-.-.-.-.-.-.-.-.-.-.-.-.-'')) = 3"
  by (simp add: word_list_def text_defs)

lemma tie_ex_sentences:
  "length (sentence_list (of_ascii ''a a a.-.-.-.-.-.-.-.-.-.-.-.-.-.-.-.-.-.-.-.-.-.-.-.-.-.-.-.-.-.-.-.-.-.-.-.-.-.-.-'')) = 40"
  by (simp add: sentence_list_def text_defs)

lemma analyze_text_fields:
  obtains m where "analyze_text U text = Inr m"
    and "words m = length (word_list U text)"
    and "sentences m = length (sentence_list text)"
    and "paragraphs m = length (paragraph_list text)"
    and "average_sentence_length m =
           py_round2 (if sentence_list text = [] then PyInt 0
              else PyFloat (fl (of_nat (length (word_list U text)) / of_nat (length (sentence_list text)))))"
    and "average_paragraph_length m =
           py_round2 (if paragraph_list text = [] then PyInt 0
              else PyFloat (fl (of_nat (length (word_list U text)) / of_nat (length (paragraph_list text)))))"
  by (simp add: analyze_text_Inr del: py_round2.simps)

text \<open>
  C3, as stated, fails at a decimal tie. A text of 3 words in 40 sentences has the exact
  quotient 0.075, which both tie rules round to 0.08; the float quotient lies below
  0.075 and the analyzer returns the float 0.07.
\<close>

theorem average_tie_counterexample:
  "\<forall>U. \<exists>m. analyze_text U (of_ascii ''a a a.-.-.-.-.-.-.-.-.-.-.-.-.-.-.-.-.-.-.-.-.-.-.-.-.-.-.-.-.-.-.-.-.-.-.-.-.-.-.-'') = Inr m \<and>
      words m = 3 \<and> sentences m = 40 \<and>
      average_sentence_length m = PyFloat (fl (7 / 100)) \<and>
      average_sentence_length m \<noteq> PyFloat (fl (round2_half_even (3 / 40))) \<and>
      average_sentence_length m \<noteq> PyFloat (fl (round2_half_away (3 / 40))) \<and>
      average_sentence_length m \<noteq> PyFloat (round2_half_even (3 / 40)) \<and>
      average_sentence_length m \<noteq> PyFloat (round2_half_away (3 / 40)) \<and>
      round2_half_even (3 / 40) = 8 / 100 \<and> round2_half_away (3 / 40) = 8 / 100"
proof
  fix U
  obtain m where m: "analyze_text U (of_ascii ''a a a.-.-.-.-.-.-.-.-.-.-.-.-.-.-.-.-.-.-.-.-.-.-.-.-.-.-.-.-.-.-.-.-.-.-.-.-.-.-.-'') = Inr m"
    and w: "words m = 3" and s: "sentences m = 40"
    and a: "average_sentence_length m = py_round2 (PyFloat (fl (3 / 40)))"
  proof -
    have ne: "sentence_list (of_ascii ''a a a.-.-.-.-.-.-.-.-.-.-.-.-.-.-.-.-.-.-.-.-.-.-.-.-.-.-.-.-.-.-.-.-.-.-.-.-.-.-.-'') \<noteq> []"
      using tie_ex_sentences by auto
    show ?thesis
      by (rule analyze_text_fields [of U "of_ascii ''a a a.-.-.-.-.-.-.-.-.-.-.-.-.-.-.-.-.-.-.-.-.-.-.-.-.-.-.-.-.-.-.-.-.-.-.-.-.-.-.-''"], rule that)
        (simp_all add: tie_ex_words tie_ex_sentences ne del: py_round2.simps)
  qed
  have a7: "average_sentence_length m = PyFloat (fl (7 / 100))"
    using a by (simp only: round2_3_40)
  show "\<exists>m. analyze_text U (of_ascii ''a a a.-.-.-.-.-.-.-.-.-.-.-.-.-.-.-.-.-.-.-.-.-.-.-.-.-.-.-.-.-.-.-.-.-.-.-.-.-.-.-'') = Inr m \<and>
      words m = 3 \<and> sentences m = 40 \<and>
      average_sentence_length m = PyFloat (fl (7 / 100)) \<and>
      average_sentence_length m \<noteq> PyFloat (fl (round2_half_even (3 / 40))) \<and>
      average_sentence_length m \<noteq> PyFloat (fl (round2_half_away (3 / 40))) \<and>
      average_sentence_length m \<noteq> PyFloat (round2_half_even (3 / 40)) \<and>
      average_sentence_length m \<noteq> PyFloat (round2_half_away (3 / 40)) \<and>
      round2_half_even (3 / 40) = 8 / 100 \<and> round2_half_away (3 / 40) = 8 / 100"
    using m w s a7 tie_3_40 by (intro exI [of _ m]) (simp only: pynum.inject simp_thms)
qed

lemma average_cases:
  fixes w n :: nat and xs :: "ustr list"
  assumes a: "a = py_round2 (if xs = [] then PyInt 0 else PyFloat (fl (of_nat w / of_nat n)))"
    and n: "n = length xs"
  shows "a = (if n = 0 then PyInt 0 else py_round2 (PyFloat (fl (of_nat w / of_nat n))))"
    and "n \<noteq> 0 \<longrightarrow>
          (\<exists>k. a = PyFloat (fl (of_int k / 100)) \<and>
               \<bar>rat_of_int k / 100 - of_nat w / of_nat n\<bar> \<le> 1 / 200 + of_nat w / of_nat n / 2 ^ 53)"
    and "n \<noteq> 0 \<and> w < 2 ^ 45 \<longrightarrow>
          (\<exists>k. a = PyFloat (fl (of_int k / 100)) \<and>
               \<bar>rat_of_int k / 100 - of_nat w / of_nat n\<bar> \<le> 1 / 200) \<and>
          (\<not> decimal_tie (of_nat w / of_nat n) \<longrightarrow>
             a = PyFloat (fl (round2_half_even (of_nat w / of_nat n))) \<and>
             a = PyFloat (fl (round2_half_away (of_nat w / of_nat n))))"
proof -
  show "a = (if n = 0 then PyInt 0 else py_round2 (PyFloat (fl (of_nat w / of_nat n))))"
    using a n by simp
  have "\<exists>k. py_round2 (PyFloat (fl (of_nat w / of_nat n))) = PyFloat (fl (of_int k / 100)) \<and>
             \<bar>rat_of_int k / 100 - of_nat w / of_nat n\<bar> \<le> 1 / 200 + of_nat w / of_nat n / 2 ^ 53"
    by (rule round2_quotient) simp
  then show "n \<noteq> 0 \<longrightarrow>
          (\<exists>k. a = PyFloat (fl (of_int k / 100)) \<and>
               \<bar>rat_of_int k / 100 - of_nat w / of_nat n\<bar> \<le> 1 / 200 + of_nat w / of_nat n / 2 ^ 53)"
    using a n by (simp del: py_round2.simps)
  show "n \<noteq> 0 \<and> w < 2 ^ 45 \<longrightarrow>
          (\<exists>k. a = PyFloat (fl (of_int k / 100)) \<and>
               \<bar>rat_of_int k / 100 - of_nat w / of_nat n\<bar> \<le> 1 / 200) \<and>
          (\<not> decimal_tie (of_nat w / of_nat n) \<longrightarrow>
             a = PyFloat (fl (round2_half_even (of_nat w / of_nat n))) \<and>
             a = PyFloat (fl (round2_half_away (of_nat w / of_nat n))))"
  proof (intro impI conjI; elim conjE)
    assume n0: "n \<noteq> 0" and w: "w < 2 ^ 45"
    define q where "q = rat_of_nat w / rat_of_nat n"
    define k where "k = rne (fl q * 100)"
    have ak: "a = PyFloat (fl (of_int k / 100))"
      using a n n0 by (simp add: k_def q_def)
    have "\<bar>rat_of_int k - q * 100\<bar> \<le> 1 / 2"
      unfolding k_def q_def using n0 w by (intro round_close) simp_all
    then have "\<bar>rat_of_int k / 100 - q\<bar> \<le> 1 / 200"
      by (simp add: abs_le_iff field_simps)
    with ak show "\<exists>k. a = PyFloat (fl (of_int k / 100)) \<and>
               \<bar>rat_of_int k / 100 - of_nat w / of_nat n\<bar> \<le> 1 / 200"
      unfolding q_def by blast
  next
    assume n0: "n \<noteq> 0" and w: "w < 2 ^ 45"
      and nt: "\<not> decimal_tie (rat_of_nat w / rat_of_nat n)"
    have "rne (fl (rat_of_nat w / rat_of_nat n) * 100) = rne (rat_of_nat w / rat_of_nat n * 100)"
      using n0 w nt by (intro round_exact) simp_all
    then show "a = PyFloat (fl (round2_half_even (of_nat w / of_nat n)))"
      using a n n0 by (simp add: round2_half_even_def)
  next
    assume n0: "n \<noteq> 0" and w: "w < 2 ^ 45"
      and nt: "\<not> decimal_tie (rat_of_nat w / rat_of_nat n)"
    have "rne (fl (rat_of_nat w / rat_of_nat n) * 100) = \<lfloor>rat_of_nat w / rat_of_nat n * 100 + 1 / 2\<rfloor>"
      using n0 w nt by (intro round_exact) simp_all
    then show "a = PyFloat (fl (round2_half_away (of_nat w / of_nat n)))"
      using a n n0 by (simp add: round2_half_away_def)
  qed
qed

text \<open>
  C3, amended. Each average is zero when its count is zero, and otherwise the float
  quotient of the word count by the count, rounded by \<^verbatim>\<open>round(x, 2)\<close>. For a text of
  fewer than \<open>2 ^ 45\<close> words the result is the float nearest to a decimal with two places
  that is within half a hundredth of the exact quotient; when the exact quotient is not a
  decimal tie, that decimal is the exact quotient rounded to two places, by either tie
  rule. With 10 words and 3 sentences the average is the float \<^verbatim>\<open>3.33\<close>.
\<close>

theorem averages_rounded:
  "(\<exists>m. analyze_text U text = Inr m \<and>
      average_sentence_length m =
        (if sentences m = 0 then PyInt 0
         else py_round2 (PyFloat (fl (of_nat (words m) / of_nat (sentences m))))) \<and>
      average_paragraph_length m =
        (if paragraphs m = 0 then PyInt 0
         else py_round2 (PyFloat (fl (of_nat (words m) / of_nat (paragraphs m))))) \<and>
      (sentences m \<noteq> 0 \<longrightarrow>
         (\<exists>k. average_sentence_length m = PyFloat (fl (of_int k / 100)) \<and>
              \<bar>rat_of_int k / 100 - of_nat (words m) / of_nat (sentences m)\<bar>
                \<le> 1 / 200 + of_nat (words m) / of_nat (sentences m) / 2 ^ 53)) \<and>
      (paragraphs m \<noteq> 0 \<longrightarrow>
         (\<exists>k. average_paragraph_length m = PyFloat (fl (of_int k / 100)) \<and>
              \<bar>rat_of_int k / 100 - of_nat (words m) / of_nat (paragraphs m)\<bar>
                \<le> 1 / 200 + of_nat (words m) / of_nat (paragraphs m) / 2 ^ 53)) \<and>
      (sentences m \<noteq> 0 \<and> words m < 2 ^ 45 \<longrightarrow>
         (\<exists>k. average_sentence_length m = PyFloat (fl (of_int k / 100)) \<and>
              \<bar>rat_of_int k / 100 - of_nat (words m) / of_nat (sentences m)\<bar> \<le> 1 / 200) \<and>
         (\<not> decimal_tie (of_nat (words m) / of_nat (sentences m)) \<longrightarrow>
            average_sentence_length m =
              PyFloat (fl (round2_half_even (of_nat (words m) / of_nat (sentences m)))) \<and>
            average_sentence_length m =
              PyFloat (fl (round2_half_away (of_nat (words m) / of_nat (sentences m)))))) \<and>
      (paragraphs m \<noteq> 0 \<and> words m < 2 ^ 45 \<longrightarrow>
         (\<exists>k. average_paragraph_length m = PyFloat (fl (of_int k / 100)) \<and>
              \<bar>rat_of_int k / 100 - of_nat (words m) / of_nat (paragraphs m)\<bar> \<le> 1 / 200) \<and>
         (\<not> decimal_tie (of_nat (words m) / of_nat (paragraphs m)) \<longrightarrow>
            average_paragraph_length m =
              PyFloat (fl (round2_half_even (of_nat (words m) / of_nat (paragraphs m)))) \<and>
            average_paragraph_length m =
              PyFloat (fl (round2_half_away (of_nat (words m) / of_nat (paragraphs m)))))) \<and>
      (words m = 10 \<and> sentences m = 3 \<longrightarrow>
         average_sentence_length m = PyFloat (fl (333 / 100)))) \<and>
   fl (333 / 100) = 1874623344892969 / 562949953421312"
proof -
  obtain m where m: "analyze_text U text = Inr m"
    and w: "words m = length (word_list U text)"
    and s: "sentences m = length (sentence_list text)"
    and p: "paragraphs m = length (paragraph_list text)"
    and as: "average_sentence_length m =
           py_round2 (if sentence_list text = [] then PyInt 0
              else PyFloat (fl (of_nat (length (word_list U text)) / of_nat (length (sentence_list text)))))"
    and ap: "average_paragraph_length m =
           py_round2 (if paragraph_list text = [] then PyInt 0
              else PyFloat (fl (of_nat (length (word_list U text)) / of_nat (length (paragraph_list text)))))"
    by (rule analyze_text_fields)
  note cs = average_cases [OF as [folded w s] s]
  note cp = average_cases [OF ap [folded w p] p]
  have ten: "words m = 10 \<and> sentences m = 3 \<longrightarrow>
      average_sentence_length m = PyFloat (fl (333 / 100))"
    using cs(1) round2_10_3 by auto
  from m cs cp ten fl_333 show ?thesis
    by blast
qed

lemma avg_ex_words:
  "length (word_list U (of_ascii ''a b c d. e f g. h i j'')) = 10"
  by (simp add: word_list_def text_defs)

lemma avg_ex_sentences:
  "sentence_list (of_ascii ''a b c d. e f g. h i j'') =
     [of_ascii ''a b c d'', of_ascii ''e f g'', of_ascii ''h i j'']"
  by (simp add: sentence_list_def text_defs)

lemma avg_ex_paragraphs:
  "paragraph_list (of_ascii ''a b c d. e f g. h i j'') = [of_ascii ''a b c d. e f g. h i j'']"
  by (simp add: paragraph_list_def text_defs)

lemma round2_10_1: "py_round2 (PyFloat (fl 10)) = PyFloat 10"
  by code_simp

lemma no_tie_10_3:
  "\<not> decimal_tie (10 / 3)" "round2_half_even (10 / 3) = 333 / 100"
  "round2_half_away (10 / 3) = 333 / 100"
  unfolding round2_half_even_def round2_half_away_def decimal_tie_def frac_def
  by code_simp+

theorem averages_rounded_witness:
  "\<exists>m. analyze_text (\<lambda>c. False) (of_ascii ''a b c d. e f g. h i j'') = Inr m \<and>
      words m = 10 \<and> sentences m = 3 \<and> paragraphs m = 1 \<and>
      \<not> decimal_tie (10 / 3) \<and>
      average_sentence_length m = PyFloat (fl (round2_half_even (10 / 3))) \<and>
      round2_half_even (10 / 3) = 333 / 100 \<and>
      average_sentence_length m = PyFloat (1874623344892969 / 562949953421312) \<and>
      average_paragraph_length m = PyFloat 10"
proof -
  from averages_rounded [of "\<lambda>c. False" "of_ascii ''a b c d. e f g. h i j''"]
  obtain m where m: "analyze_text (\<lambda>c. False) (of_ascii ''a b c d. e f g. h i j'') = Inr m"
    and ap: "average_paragraph_length m =
        (if paragraphs m = 0 then PyInt 0
         else py_round2 (PyFloat (fl (of_nat (words m) / of_nat (paragraphs m)))))"
    and ex: "sentences m \<noteq> 0 \<and> words m < 2 ^ 45 \<longrightarrow>
         (\<exists>k. average_sentence_length m = PyFloat (fl (of_int k / 100)) \<and>
              \<bar>rat_of_int k / 100 - of_nat (words m) / of_nat (sentences m)\<bar> \<le> 1 / 200) \<and>
         (\<not> decimal_tie (of_nat (words m) / of_nat (sentences m)) \<longrightarrow>
            average_sentence_length m =
              PyFloat (fl (round2_half_even (of_nat (words m) / of_nat (sentences m)))) \<and>
            average_sentence_length m =
              PyFloat (fl (round2_half_away (of_nat (words m) / of_nat (sentences m)))))"
    and ten: "words m = 10 \<and> sentences m = 3 \<longrightarrow>
         average_sentence_length m = PyFloat (fl (333 / 100))"
    by blast
  have c: "words m = 10" "sentences m = 3" "paragraphs m = 1"
    using m by (auto simp: analyze_text_Inr avg_ex_words avg_ex_sentences avg_ex_paragraphs)
  have "average_sentence_length m = PyFloat (fl (round2_half_even (10 / 3)))"
    using ex c no_tie_10_3(1) by simp
  moreover have "average_sentence_length m = PyFloat (1874623344892969 / 562949953421312)"
    using ten c by (simp add: fl_333)
  moreover have "average_paragraph_length m = PyFloat 10"
    using ap c round2_10_1 by (simp del: py_round2.simps)
  ultimately show ?thesis
    using m c no_tie_10_3 by blast
qed

subsection \<open>The sections of the report\<close>

lemmas report_defs = TITLE_LINE_def WORDS_LABEL_def SENTENCES_LABEL_def PARAGRAPHS_LABEL_def
  AVG_SENTENCE_LABEL_def AVG_PARAGRAPH_LABEL_def LONG_HEADER_def REPEATED_WARNING_def
  ALERTS_HEADER_def bullet_def

lemma append_bullets_eq: "append_bullets ls xs = ls @ map bullet xs"
  unfolding append_bullets_def by (induction xs arbitrary: ls) simp_all

lemma format_lines_eq:
  "format_lines R m =
     head_lines R m @
     (if long_sentences m = [] then [] else LONG_HEADER # map bullet (long_sentences m) @ [[10]]) @
     (if repeated_spaces m = [] then [] else [REPEATED_WARNING]) @
     (if typography_alerts m = [] then [] else ALERTS_HEADER # map bullet (typography_alerts m))"
  by (simp add: format_lines_def append_bullets_eq)

lemma headers_distinct:
  "LONG_HEADER \<noteq> REPEATED_WARNING" "LONG_HEADER \<noteq> ALERTS_HEADER"
  "REPEATED_WARNING \<noteq> ALERTS_HEADER" "LONG_HEADER \<noteq> [10]" "REPEATED_WARNING \<noteq> [10]"
  "ALERTS_HEADER \<noteq> [10]"
  by (simp_all add: report_defs)

lemma headers_not_bullets:
  "LONG_HEADER \<notin> set (map bullet xs)" "REPEATED_WARNING \<notin> set (map bullet xs)"
  "ALERTS_HEADER \<notin> set (map bullet xs)"
  by (auto simp: report_defs)

lemma headers_not_head:
  "LONG_HEADER \<notin> set (head_lines R m)" "REPEATED_WARNING \<notin> set (head_lines R m)"
  "ALERTS_HEADER \<notin> set (head_lines R m)"
  by (simp_all add: head_lines_def report_defs)

lemma re_split_segment:
  "\<not> list_ex P b \<Longrightarrow> P q \<Longrightarrow> re_split P cur (b @ q # rest) = (cur @ b) # re_split P [] rest"
  by (induction b arbitrary: cur) simp_all

lemma text_lines_line:
  assumes "is_line l"
  shows "text_lines (l @ rest) = butlast l # text_lines rest"
proof -
  from assms have l: "l = butlast l @ [10]" and n: "\<not> list_ex (\<lambda>c. c = 10) (butlast l)"
    by (auto simp: is_line_def list_ex_iff dest: append_butlast_last_id [symmetric])
  have "text_lines ((butlast l @ [10]) @ rest) = butlast l # text_lines rest"
    unfolding text_lines_def using re_split_segment [OF n, of 10 "[]" rest] by simp
  with l show ?thesis by simp
qed

lemma text_lines_concat:
  "list_all is_line ls \<Longrightarrow> text_lines (concat ls) = map butlast ls @ [[]]"
  by (induction ls) (simp_all add: text_lines_line, simp add: text_lines_def)

lemma str_nat_digits: "c \<in> set (str_nat n) \<Longrightarrow> 48 \<le> c \<and> c \<le> 57"
proof (induction n rule: str_nat.induct)
  case (1 n)
  show ?case
  proof (cases "n < 10")
    case True
    with "1.prems" show ?thesis by (simp add: str_nat.simps [of n])
  next
    case False
    with "1.prems" have "c \<in> set (str_nat (n div 10)) \<or> c = 48 + n mod 10"
      by (auto simp: str_nat.simps [of n])
    then show ?thesis
    proof
      assume "c \<in> set (str_nat (n div 10))"
      with "1.IH" False show ?thesis by simp
    next
      assume "c = 48 + n mod 10"
      moreover have "n mod 10 < 10" by simp
      ultimately show ?thesis by linarith
    qed
  qed
qed

lemma str_nat_no_newline: "10 \<notin> set (str_nat n)"
  using str_nat_digits [of 10 n] by auto

lemma is_line_snoc: "10 \<notin> set b \<Longrightarrow> is_line (b @ [10])"
  by (simp add: is_line_def)

lemma fixed_lines:
  "is_line TITLE_LINE" "is_line LONG_HEADER" "is_line REPEATED_WARNING" "is_line ALERTS_HEADER"
  "is_line [10]"
  by (simp_all add: is_line_def TITLE_LINE_def LONG_HEADER_def REPEATED_WARNING_def
      ALERTS_HEADER_def)

lemma count_lines:
  "is_line (WORDS_LABEL @ str_nat n @ [10])" "is_line (SENTENCES_LABEL @ str_nat n @ [10])"
  "is_line (PARAGRAPHS_LABEL @ str_nat n @ [10])"
  using str_nat_no_newline [of n]
  by (simp_all add: is_line_def butlast_append WORDS_LABEL_def SENTENCES_LABEL_def
      PARAGRAPHS_LABEL_def)

lemma average_lines:
  "10 \<notin> set x \<Longrightarrow> is_line (AVG_SENTENCE_LABEL @ x @ WORD_UNIT)"
  "10 \<notin> set x \<Longrightarrow> is_line (AVG_PARAGRAPH_LABEL @ x @ WORD_UNIT)"
  by (simp_all add: is_line_def butlast_append AVG_SENTENCE_LABEL_def AVG_PARAGRAPH_LABEL_def
      WORD_UNIT_def)

lemma bullet_line: "10 \<notin> set x \<Longrightarrow> is_line (bullet x)"
  by (simp add: is_line_def bullet_def butlast_append)

lemma bullets_lines: "list_all (\<lambda>x. 10 \<notin> set x) xs \<Longrightarrow> list_all is_line (map bullet xs)"
  by (induction xs) (simp_all add: bullet_line)

lemma format_lines_are_lines:
  assumes "10 \<notin> set (str_num R (average_sentence_length m))"
    and "10 \<notin> set (str_num R (average_paragraph_length m))"
    and "list_all (\<lambda>x. 10 \<notin> set x) (long_sentences m)"
    and "list_all (\<lambda>x. 10 \<notin> set x) (typography_alerts m)"
  shows "list_all is_line (format_lines R m)"
  using assms
  by (simp add: format_lines_eq head_lines_def fixed_lines count_lines average_lines
      bullets_lines)


lemma butlast_bullet: "butlast (bullet x) = [45, 32] @ x"
  by (simp add: bullet_def butlast_append)

lemma header_texts_distinct:
  "butlast LONG_HEADER \<noteq> butlast REPEATED_WARNING" "butlast LONG_HEADER \<noteq> butlast ALERTS_HEADER"
  "butlast REPEATED_WARNING \<noteq> butlast ALERTS_HEADER" "butlast LONG_HEADER \<noteq> []"
  "butlast REPEATED_WARNING \<noteq> []" "butlast ALERTS_HEADER \<noteq> []"
  by (simp_all add: report_defs)

lemma header_texts_not_bullets:
  "butlast LONG_HEADER \<notin> set (map (\<lambda>x. [45, 32] @ x) xs)"
  "butlast REPEATED_WARNING \<notin> set (map (\<lambda>x. [45, 32] @ x) xs)"
  "butlast ALERTS_HEADER \<notin> set (map (\<lambda>x. [45, 32] @ x) xs)"
  by (auto simp: report_defs)

lemma header_texts_not_head:
  "butlast LONG_HEADER \<notin> set (map butlast (head_lines R m))"
  "butlast REPEATED_WARNING \<notin> set (map butlast (head_lines R m))"
  "butlast ALERTS_HEADER \<notin> set (map butlast (head_lines R m))"
  by (simp_all add: head_lines_def report_defs WORD_UNIT_def butlast_append)

lemma map_butlast_lines:
  "map butlast (format_lines R m) =
     map butlast (head_lines R m) @
     (if long_sentences m = [] then []
      else butlast LONG_HEADER # map (\<lambda>x. [45, 32] @ x) (long_sentences m) @ [[]]) @
     (if repeated_spaces m = [] then [] else [butlast REPEATED_WARNING]) @
     (if typography_alerts m = [] then []
      else butlast ALERTS_HEADER # map (\<lambda>x. [45, 32] @ x) (typography_alerts m))"
  by (simp add: format_lines_eq butlast_bullet o_def)

lemma header_text_lines:
  "butlast LONG_HEADER \<in> set (map butlast (format_lines R m) @ [[]]) \<longleftrightarrow> long_sentences m \<noteq> []"
  "butlast REPEATED_WARNING \<in> set (map butlast (format_lines R m) @ [[]]) \<longleftrightarrow> repeated_spaces m \<noteq> []"
  "butlast ALERTS_HEADER \<in> set (map butlast (format_lines R m) @ [[]]) \<longleftrightarrow> typography_alerts m \<noteq> []"
  using header_texts_not_head [of R m] header_texts_not_bullets header_texts_distinct
  unfolding map_butlast_lines by auto

lemma wrapped_sentences: "sentence_list wrapped_text = [wrapped_text]"
  by (simp add: sentence_list_def wrapped_text_def ALERTS_HEADER_def text_defs)

lemma wrapped_tokens: "length (py_split wrapped_text) = 32"
  by (simp add: wrapped_text_def ALERTS_HEADER_def text_defs)

lemma wrapped_alerts: "alert_list wrapped_text = []"
  by (simp add: alert_list_def wrapped_text_def ALERTS_HEADER_def of_ascii_def)

lemma wrapped_spaces: "re_runs py_isspace 2 wrapped_text = []"
  by (simp add: wrapped_text_def ALERTS_HEADER_def text_defs)

lemma wrapped_section:
  "text_lines (LONG_HEADER @ bullet wrapped_text @ [10]) =
     butlast LONG_HEADER # [45, 32, 97] #
       [[97], [97], [97], [97], [97], [97], [97], [97], [97], [97],
           [97], [97], [97], [97], [97], [97], [97], [97], [97], [97],
           [97], [97], [97], [97], [97], [97], [97], [97], [97]] @ [butlast ALERTS_HEADER, [], []]"
  by (simp add: text_lines_def LONG_HEADER_def bullet_def wrapped_text_def ALERTS_HEADER_def)

lemma text_lines_append:
  "text_lines (a @ 10 # b) = text_lines a @ text_lines b"
  unfolding text_lines_def by (rule re_split_append) simp

text \<open>
  C9, as stated, fails on the returned report. The analyzer gives \<open>wrapped_text\<close> as one
  long sentence and no alert; the report prints this sentence on 31 text lines after the
  header of the long sentences, and the last of them is the line of the alerts header.
\<close>

theorem report_lines_counterexample:
  "\<forall>U R. \<exists>m pre. analyze_text U wrapped_text = Inr m \<and>
      long_sentences m = [wrapped_text] \<and> repeated_spaces m = [] \<and> typography_alerts m = [] \<and>
      butlast ALERTS_HEADER \<in> set (text_lines (format_metrics R m)) \<and>
      text_lines (format_metrics R m) =
        pre @ butlast LONG_HEADER # [45, 32, 97] #
          [[97], [97], [97], [97], [97], [97], [97], [97], [97], [97],
           [97], [97], [97], [97], [97], [97], [97], [97], [97], [97],
           [97], [97], [97], [97], [97], [97], [97], [97], [97]] @ [butlast ALERTS_HEADER, [], []]"
proof (intro allI)
  fix U R
  obtain m where m: "analyze_text U wrapped_text = Inr m"
    and l: "long_sentences m = [wrapped_text]" and r: "repeated_spaces m = []"
    and t: "typography_alerts m = []"
    by (simp add: analyze_text_Inr wrapped_sentences wrapped_tokens wrapped_alerts
        wrapped_spaces del: py_round2.simps)
  define H where "H = concat (butlast (head_lines R m))"
  have h: "concat (head_lines R m) = H @ [10]"
    by (simp add: H_def head_lines_def)
  have "format_metrics R m = H @ 10 # (LONG_HEADER @ bullet wrapped_text @ [10])"
    by (simp add: format_metrics_def format_lines_eq l r t h)
  then have "text_lines (format_metrics R m) =
      text_lines H @ text_lines (LONG_HEADER @ bullet wrapped_text @ [10])"
    by (simp only: text_lines_append)
  then have "text_lines (format_metrics R m) =
      text_lines H @ butlast LONG_HEADER # [45, 32, 97] #
          [[97], [97], [97], [97], [97], [97], [97], [97], [97], [97],
           [97], [97], [97], [97], [97], [97], [97], [97], [97], [97],
           [97], [97], [97], [97], [97], [97], [97], [97], [97]] @ [butlast ALERTS_HEADER, [], []]"
    by (simp only: wrapped_section)
  moreover from this have "butlast ALERTS_HEADER \<in> set (text_lines (format_metrics R m))"
    by simp
  ultimately show "\<exists>m pre. analyze_text U wrapped_text = Inr m \<and>
      long_sentences m = [wrapped_text] \<and> repeated_spaces m = [] \<and> typography_alerts m = [] \<and>
      butlast ALERTS_HEADER \<in> set (text_lines (format_metrics R m)) \<and>
      text_lines (format_metrics R m) =
        pre @ butlast LONG_HEADER # [45, 32, 97] #
          [[97], [97], [97], [97], [97], [97], [97], [97], [97], [97],
           [97], [97], [97], [97], [97], [97], [97], [97], [97], [97],
           [97], [97], [97], [97], [97], [97], [97], [97], [97]] @ [butlast ALERTS_HEADER, [], []]"
    using m l r t by blast
qed

text \<open>
  C9, amended. Among the entries that the report appends and joins, the header of the
  long sentences is there exactly when there are long sentences, and then once, followed
  by one entry for each of them; the header of the alerts is there exactly when there are
  alerts, followed by one entry for each; the warning about repeated spaces is there
  exactly when there are such runs. When no long sentence, alert or number text contains
  a newline, the entries are the text lines of the returned report, so the same holds of
  its text lines: each header line is there exactly when its list is not empty, followed
  by one line per element.
\<close>

theorem report_sections:
  "(LONG_HEADER \<in> set (format_lines R m) \<longleftrightarrow> long_sentences m \<noteq> []) \<and>
   (REPEATED_WARNING \<in> set (format_lines R m) \<longleftrightarrow> repeated_spaces m \<noteq> []) \<and>
   (ALERTS_HEADER \<in> set (format_lines R m) \<longleftrightarrow> typography_alerts m \<noteq> []) \<and>
   format_lines R m =
     head_lines R m @
     (if long_sentences m = [] then [] else LONG_HEADER # map bullet (long_sentences m) @ [[10]]) @
     (if repeated_spaces m = [] then [] else [REPEATED_WARNING]) @
     (if typography_alerts m = [] then [] else ALERTS_HEADER # map bullet (typography_alerts m)) \<and>
   count_list (format_lines R m) LONG_HEADER = (if long_sentences m = [] then 0 else 1) \<and>
   count_list (format_lines R m) ALERTS_HEADER = (if typography_alerts m = [] then 0 else 1) \<and>
   format_metrics R m = concat (format_lines R m) \<and>
   (10 \<notin> set (str_num R (average_sentence_length m)) \<and>
    10 \<notin> set (str_num R (average_paragraph_length m)) \<and>
    list_all (\<lambda>x. 10 \<notin> set x) (long_sentences m) \<and>
    list_all (\<lambda>x. 10 \<notin> set x) (typography_alerts m) \<longrightarrow>
      text_lines (format_metrics R m) = map butlast (format_lines R m) @ [[]] \<and>
      text_lines (format_metrics R m) =
        map butlast (head_lines R m) @
        (if long_sentences m = [] then []
         else butlast LONG_HEADER # map (\<lambda>x. [45, 32] @ x) (long_sentences m) @ [[]]) @
        (if repeated_spaces m = [] then [] else [butlast REPEATED_WARNING]) @
        (if typography_alerts m = [] then []
         else butlast ALERTS_HEADER # map (\<lambda>x. [45, 32] @ x) (typography_alerts m)) @
        [[]] \<and>
      (butlast LONG_HEADER \<in> set (text_lines (format_metrics R m)) \<longleftrightarrow>
         long_sentences m \<noteq> []) \<and>
      (butlast REPEATED_WARNING \<in> set (text_lines (format_metrics R m)) \<longleftrightarrow>
         repeated_spaces m \<noteq> []) \<and>
      (butlast ALERTS_HEADER \<in> set (text_lines (format_metrics R m)) \<longleftrightarrow>
         typography_alerts m \<noteq> []))"
proof (intro conjI)
  note nin = headers_not_head [of R m] headers_not_bullets headers_distinct
  show "LONG_HEADER \<in> set (format_lines R m) \<longleftrightarrow> long_sentences m \<noteq> []"
    using nin by (auto simp: format_lines_eq)
  show "REPEATED_WARNING \<in> set (format_lines R m) \<longleftrightarrow> repeated_spaces m \<noteq> []"
    using nin by (auto simp: format_lines_eq)
  show "ALERTS_HEADER \<in> set (format_lines R m) \<longleftrightarrow> typography_alerts m \<noteq> []"
    using nin by (auto simp: format_lines_eq)
  show "format_lines R m =
     head_lines R m @
     (if long_sentences m = [] then [] else LONG_HEADER # map bullet (long_sentences m) @ [[10]]) @
     (if repeated_spaces m = [] then [] else [REPEATED_WARNING]) @
     (if typography_alerts m = [] then [] else ALERTS_HEADER # map bullet (typography_alerts m))"
    by (rule format_lines_eq)
  have c: "count_list (head_lines R m) LONG_HEADER = 0"
      "count_list (map bullet xs) LONG_HEADER = 0"
      "count_list (head_lines R m) ALERTS_HEADER = 0"
      "count_list (map bullet xs) ALERTS_HEADER = 0" for xs
    using nin by (simp_all add: count_list_0_iff)
  show "count_list (format_lines R m) LONG_HEADER = (if long_sentences m = [] then 0 else 1)"
    using headers_distinct by (simp add: format_lines_eq c)
  show "count_list (format_lines R m) ALERTS_HEADER = (if typography_alerts m = [] then 0 else 1)"
    using headers_distinct by (simp add: format_lines_eq c)
  show "format_metrics R m = concat (format_lines R m)"
    by (simp add: format_metrics_def)
  show "10 \<notin> set (str_num R (average_sentence_length m)) \<and>
    10 \<notin> set (str_num R (average_paragraph_length m)) \<and>
    list_all (\<lambda>x. 10 \<notin> set x) (long_sentences m) \<and>
    list_all (\<lambda>x. 10 \<notin> set x) (typography_alerts m) \<longrightarrow>
      text_lines (format_metrics R m) = map butlast (format_lines R m) @ [[]] \<and>
      text_lines (format_metrics R m) =
        map butlast (head_lines R m) @
        (if long_sentences m = [] then []
         else butlast LONG_HEADER # map (\<lambda>x. [45, 32] @ x) (long_sentences m) @ [[]]) @
        (if repeated_spaces m = [] then [] else [butlast REPEATED_WARNING]) @
        (if typography_alerts m = [] then []
         else butlast ALERTS_HEADER # map (\<lambda>x. [45, 32] @ x) (typography_alerts m)) @
        [[]] \<and>
      (butlast LONG_HEADER \<in> set (text_lines (format_metrics R m)) \<longleftrightarrow>
         long_sentences m \<noteq> []) \<and>
      (butlast REPEATED_WARNING \<in> set (text_lines (format_metrics R m)) \<longleftrightarrow>
         repeated_spaces m \<noteq> []) \<and>
      (butlast ALERTS_HEADER \<in> set (text_lines (format_metrics R m)) \<longleftrightarrow>
         typography_alerts m \<noteq> [])"
  proof
    assume h: "10 \<notin> set (str_num R (average_sentence_length m)) \<and>
      10 \<notin> set (str_num R (average_paragraph_length m)) \<and>
      list_all (\<lambda>x. 10 \<notin> set x) (long_sentences m) \<and>
      list_all (\<lambda>x. 10 \<notin> set x) (typography_alerts m)"
    have tl: "text_lines (format_metrics R m) = map butlast (format_lines R m) @ [[]]"
      unfolding format_metrics_def using h
      by (intro text_lines_concat format_lines_are_lines) simp_all
    show "text_lines (format_metrics R m) = map butlast (format_lines R m) @ [[]] \<and>
      text_lines (format_metrics R m) =
        map butlast (head_lines R m) @
        (if long_sentences m = [] then []
         else butlast LONG_HEADER # map (\<lambda>x. [45, 32] @ x) (long_sentences m) @ [[]]) @
        (if repeated_spaces m = [] then [] else [butlast REPEATED_WARNING]) @
        (if typography_alerts m = [] then []
         else butlast ALERTS_HEADER # map (\<lambda>x. [45, 32] @ x) (typography_alerts m)) @
        [[]] \<and>
      (butlast LONG_HEADER \<in> set (text_lines (format_metrics R m)) \<longleftrightarrow>
         long_sentences m \<noteq> []) \<and>
      (butlast REPEATED_WARNING \<in> set (text_lines (format_metrics R m)) \<longleftrightarrow>
         repeated_spaces m \<noteq> []) \<and>
      (butlast ALERTS_HEADER \<in> set (text_lines (format_metrics R m)) \<longleftrightarrow>
         typography_alerts m \<noteq> [])"
      unfolding tl using header_text_lines [of R m]
      by (simp add: map_butlast_lines)
  qed
qed

lemma example_lines:
  "format_lines (\<lambda>x. of_ascii ''3.0'') example_metrics =
     [TITLE_LINE, WORDS_LABEL @ [51, 10], SENTENCES_LABEL @ [49, 10], PARAGRAPHS_LABEL @ [49, 10],
      AVG_SENTENCE_LABEL @ of_ascii ''3.0'' @ WORD_UNIT,
      AVG_PARAGRAPH_LABEL @ of_ascii ''3.0'' @ WORD_UNIT, [10],
      LONG_HEADER, bullet (of_ascii ''a b c''), [10], ALERTS_HEADER, bullet ALERT_COMMA]"
  by (simp add: format_lines_eq head_lines_def example_metrics_def str_int_def
      str_nat.simps [of 3] str_nat.simps [of "Suc 0"] str_nat.simps [of 0])

theorem report_sections_witness:
  "text_lines (format_metrics (\<lambda>x. of_ascii ''3.0'') example_metrics) =
     map butlast
       [TITLE_LINE, WORDS_LABEL @ [51, 10], SENTENCES_LABEL @ [49, 10], PARAGRAPHS_LABEL @ [49, 10],
        AVG_SENTENCE_LABEL @ of_ascii ''3.0'' @ WORD_UNIT,
        AVG_PARAGRAPH_LABEL @ of_ascii ''3.0'' @ WORD_UNIT, [10],
        LONG_HEADER, bullet (of_ascii ''a b c''), [10], ALERTS_HEADER, bullet ALERT_COMMA] @ [[]] \<and>
   butlast LONG_HEADER \<in> set (text_lines (format_metrics (\<lambda>x. of_ascii ''3.0'') example_metrics)) \<and>
   butlast REPEATED_WARNING \<notin> set (text_lines (format_metrics (\<lambda>x. of_ascii ''3.0'') example_metrics)) \<and>
   butlast ALERTS_HEADER \<in> set (text_lines (format_metrics (\<lambda>x. of_ascii ''3.0'') example_metrics))"
proof -
  have "10 \<notin> set (str_num (\<lambda>x. of_ascii ''3.0'') (average_sentence_length example_metrics)) \<and>
    10 \<notin> set (str_num (\<lambda>x. of_ascii ''3.0'') (average_paragraph_length example_metrics)) \<and>
    list_all (\<lambda>x. 10 \<notin> set x) (long_sentences example_metrics) \<and>
    list_all (\<lambda>x. 10 \<notin> set x) (typography_alerts example_metrics)"
    by (simp add: example_metrics_def of_ascii_def ALERT_COMMA_def)
  with report_sections [of "\<lambda>x. of_ascii ''3.0''" example_metrics]
  have tl: "text_lines (format_metrics (\<lambda>x. of_ascii ''3.0'') example_metrics) =
      map butlast (format_lines (\<lambda>x. of_ascii ''3.0'') example_metrics) @ [[]]"
    and l: "butlast LONG_HEADER \<in> set (text_lines (format_metrics (\<lambda>x. of_ascii ''3.0'') example_metrics)) \<longleftrightarrow>
         long_sentences example_metrics \<noteq> []"
    and r: "butlast REPEATED_WARNING \<in> set (text_lines (format_metrics (\<lambda>x. of_ascii ''3.0'') example_metrics)) \<longleftrightarrow>
         repeated_spaces example_metrics \<noteq> []"
    and t: "butlast ALERTS_HEADER \<in> set (text_lines (format_metrics (\<lambda>x. of_ascii ''3.0'') example_metrics)) \<longleftrightarrow>
         typography_alerts example_metrics \<noteq> []"
    by blast+
  have "text_lines (format_metrics (\<lambda>x. of_ascii ''3.0'') example_metrics) =
     map butlast
       [TITLE_LINE, WORDS_LABEL @ [51, 10], SENTENCES_LABEL @ [49, 10], PARAGRAPHS_LABEL @ [49, 10],
        AVG_SENTENCE_LABEL @ of_ascii ''3.0'' @ WORD_UNIT,
        AVG_PARAGRAPH_LABEL @ of_ascii ''3.0'' @ WORD_UNIT, [10],
        LONG_HEADER, bullet (of_ascii ''a b c''), [10], ALERTS_HEADER, bullet ALERT_COMMA] @ [[]]"
    using tl by (simp only: example_lines)
  moreover have "long_sentences example_metrics \<noteq> []" "repeated_spaces example_metrics = []"
    "typography_alerts example_metrics \<noteq> []"
    by (simp_all add: example_metrics_def)
  ultimately show ?thesis
    using l r t by blast
qed

end
